theory Spec2Isabelle
  imports Complex_Main
begin

section \<open>Data model\<close>

text \<open>
  Clock readings (\<open>datetime.now(timezone.utc)\<close>) are rational numbers of seconds; the
  configured durations are the integers that \<open>config.py\<close> parses from the environment.
  Dictionaries with a fixed set of keys are records; a key that the code reads with
  \<open>.get\<close> or that may be missing is an \<open>option\<close> field (\<open>None\<close>: key absent).
\<close>

type_synonym time = rat

record detection =
  bbox :: "int list option"
  confidence :: "rat option"
  class_id :: int
  class_name :: string
  area_ratio :: rat

record capture =
  capture_id :: string
  cap_visit_id :: string
  timestamp :: time
  image_url :: "string option"
  detections :: "detection list option"
  is_best_capture :: bool

record visit =
  visit_id :: string
  session_id :: string
  start_time :: time
  end_time :: "time option"
  captures :: "capture list"
  status :: string
  species :: "string option"
  species_confidence :: "string option"
  summary :: "string option"
  bird_count :: int

datatype VisitState = IDLE | BIRD_PRESENT | BIRD_ABSENT | VISIT_COMPLETE

text \<open>
  The class \<open>Config\<close> of \<open>backend/config.py\<close>. It declares no attribute
  \<open>OPENAI_RETRY_DELAY_SEC\<close>, which \<open>species_analyzer.py\<close> reads: the field is an
  option, \<open>None\<close> standing for the attribute being absent.
\<close>

record config =
  DETECTION_INTERVAL_MS :: int
  ABSENCE_GRACE_PERIOD_SEC :: int
  VISIT_COOLDOWN_SEC :: int
  MAX_CAPTURES_PER_VISIT :: int
  CAPTURE_INTERVAL_SEC :: int
  OPENAI_API_KEY :: string
  OPENAI_MAX_RETRIES :: int
  OPENAI_RETRY_DELAY_SEC :: "int option"
  SUPABASE_URL :: string
  STORAGE_BUCKET :: string

definition Config :: config where
  "Config = \<lparr> DETECTION_INTERVAL_MS = 500, ABSENCE_GRACE_PERIOD_SEC = 5,
     VISIT_COOLDOWN_SEC = 15, MAX_CAPTURES_PER_VISIT = 5, CAPTURE_INTERVAL_SEC = 3,
     OPENAI_API_KEY = [], OPENAI_MAX_RETRIES = 3, OPENAI_RETRY_DELAY_SEC = None,
     SUPABASE_URL = [], STORAGE_BUCKET = ''bird-captures'' \<rparr>"

text \<open>Python prints a name in single quotes inside its messages.\<close>

definition quoted :: "string \<Rightarrow> string" where
  "quoted s = [CHR 0x27] @ s @ [CHR 0x27]"

datatype error =
    AttributeError string
  | KeyError string
  | IndexError string
  | ValueError string
  | OverflowError string
  | Exception string

fun str :: "error \<Rightarrow> string" where
  "str (AttributeError m) = m"
| "str (KeyError k) = quoted k"
| "str (IndexError m) = m"
| "str (ValueError m) = m"
| "str (OverflowError m) = m"
| "str (Exception m) = m"

section \<open>The visit state machine (\<open>backend/state_machine.py\<close>)\<close>

record VisitStateMachine =
  sm_session_id :: string
  state :: VisitState
  current_visit :: "visit option"
  absence_start_time :: "time option"
  cooldown_start_time :: "time option"
  last_capture_time :: "time option"

text \<open>
  The instruction dictionary returned by \<open>process_detection\<close>. The key
  \<open>detections\<close> is absent from a \<open>complete_visit\<close> instruction.
\<close>

record instruction =
  action :: string
  instr_visit :: visit
  instr_capture :: bool
  instr_detections :: "detection list option"

text \<open>
  What the code reads from its environment while it handles one detection: the clock
  read by \<open>process_detection\<close>, the identifier and the clock reading that
  \<open>Visit.__init__\<close> draws when a visit is constructed, and what
  \<open>_capture_and_store\<close> meets when it stores a capture (its identifier and clock
  reading, and whether the JPEG encoding, the storage upload and the database insert
  succeed).
\<close>

record env =
  now :: time
  fresh_visit_id :: string
  visit_clock :: time
  fresh_capture_id :: string
  capture_clock :: time
  encode_ok :: bool
  upload_ok :: bool
  insert_ok :: bool

definition init_machine :: "string \<Rightarrow> VisitStateMachine" where
  "init_machine sid = \<lparr> sm_session_id = sid, state = IDLE, current_visit = None,
     absence_start_time = None, cooldown_start_time = None, last_capture_time = None \<rparr>"

definition Visit :: "string \<Rightarrow> env \<Rightarrow> visit" where
  "Visit sid e = \<lparr> visit_id = fresh_visit_id e, session_id = sid,
     start_time = visit_clock e, end_time = None, captures = [], status = ''active'',
     species = None, species_confidence = None, summary = None, bird_count = 1 \<rparr>"

definition should_capture :: "config \<Rightarrow> VisitStateMachine \<Rightarrow> time \<Rightarrow> bool" where
  "should_capture cfg m t =
     (case last_capture_time m of
        None \<Rightarrow> True
      | Some l \<Rightarrow> t - l \<ge> of_int (CAPTURE_INTERVAL_SEC cfg))"

definition absence_timeout_elapsed :: "config \<Rightarrow> VisitStateMachine \<Rightarrow> time \<Rightarrow> bool" where
  "absence_timeout_elapsed cfg m t =
     (case absence_start_time m of
        None \<Rightarrow> False
      | Some a \<Rightarrow> t - a \<ge> of_int (ABSENCE_GRACE_PERIOD_SEC cfg))"

definition cooldown_elapsed :: "config \<Rightarrow> VisitStateMachine \<Rightarrow> time \<Rightarrow> bool" where
  "cooldown_elapsed cfg m t =
     (case cooldown_start_time m of
        None \<Rightarrow> True
      | Some c \<Rightarrow> t - c \<ge> of_int (VISIT_COOLDOWN_SEC cfg))"

definition start_visit ::
  "VisitStateMachine \<Rightarrow> detection list \<Rightarrow> env \<Rightarrow>
     instruction option \<times> VisitStateMachine" where
  "start_visit m ds e =
     (let v = Visit (sm_session_id m) e in
      (Some \<lparr> action = ''start_visit'', instr_visit = v, instr_capture = True,
              instr_detections = Some ds \<rparr>,
       m\<lparr> current_visit := Some v, state := BIRD_PRESENT,
          last_capture_time := Some (now e) \<rparr>))"

text \<open>
  \<open>_capture_photo\<close> and \<open>_complete_visit\<close> dereference \<open>self.current_visit\<close>
  in their first statement; on \<open>None\<close> Python raises \<open>AttributeError\<close> before
  anything is assigned.
\<close>

definition capture_photo ::
  "config \<Rightarrow> VisitStateMachine \<Rightarrow> detection list \<Rightarrow> time \<Rightarrow>
     error + (instruction option \<times> VisitStateMachine)" where
  "capture_photo cfg m ds t =
     (case current_visit m of
        None \<Rightarrow> Inl (AttributeError (quoted ''NoneType'' @ '' object has no attribute ''
                      @ quoted ''captures''))
      | Some v \<Rightarrow>
          if int (length (captures v)) \<ge> MAX_CAPTURES_PER_VISIT cfg then Inr (None, m)
          else Inr (Some \<lparr> action = ''capture'', instr_visit = v, instr_capture = True,
                           instr_detections = Some ds \<rparr>,
                    m\<lparr> last_capture_time := Some t \<rparr>))"

definition enter_absence :: "VisitStateMachine \<Rightarrow> time \<Rightarrow> VisitStateMachine" where
  "enter_absence m t = m\<lparr> state := BIRD_ABSENT, absence_start_time := Some t \<rparr>"

definition resume_presence :: "VisitStateMachine \<Rightarrow> time \<Rightarrow> VisitStateMachine" where
  "resume_presence m t = m\<lparr> state := BIRD_PRESENT, absence_start_time := None \<rparr>"

definition complete_visit ::
  "VisitStateMachine \<Rightarrow> time \<Rightarrow> error + (instruction option \<times> VisitStateMachine)" where
  "complete_visit m t =
     (case current_visit m of
        None \<Rightarrow> Inl (AttributeError (quoted ''NoneType'' @ '' object has no attribute ''
                      @ quoted ''end_time''))
      | Some v \<Rightarrow>
          (let visit_to_analyze = v\<lparr> end_time := Some t, status := ''analyzing'' \<rparr> in
           Inr (Some \<lparr> action = ''complete_visit'', instr_visit = visit_to_analyze,
                        instr_capture = False, instr_detections = None \<rparr>,
                m\<lparr> state := VISIT_COMPLETE, cooldown_start_time := Some t,
                   absence_start_time := None, current_visit := None \<rparr>)))"

definition process_detection ::
  "config \<Rightarrow> VisitStateMachine \<Rightarrow> bool \<Rightarrow> detection list \<Rightarrow> env \<Rightarrow>
     error + (instruction option \<times> VisitStateMachine)" where
  "process_detection cfg m detected ds e =
     (case state m of
        IDLE \<Rightarrow>
          if detected \<and> cooldown_elapsed cfg m (now e)
          then Inr (start_visit m ds e)
          else Inr (None, m)
      | BIRD_PRESENT \<Rightarrow>
          if detected then
            (if should_capture cfg m (now e) then capture_photo cfg m ds (now e)
             else Inr (None, m))
          else Inr (None, enter_absence m (now e))
      | BIRD_ABSENT \<Rightarrow>
          if detected then Inr (None, resume_presence m (now e))
          else if absence_timeout_elapsed cfg m (now e) then complete_visit m (now e)
          else Inr (None, m)
      | VISIT_COMPLETE \<Rightarrow>
          if cooldown_elapsed cfg m (now e) then
            (if detected then Inr (start_visit (m\<lparr> state := IDLE \<rparr>) ds e)
             else Inr (None, m\<lparr> state := IDLE \<rparr>))
          else Inr (None, m))"

section \<open>The detection loop (\<open>backend/bird_detector.py\<close>)\<close>

text \<open>
  \<open>_capture_and_store\<close> appends the capture to \<open>visit.captures\<close> only when the
  encoding and the database insert went through; a failed storage upload falls back to
  a \<open>local://\<close> URL. Every exception is caught inside the method.
\<close>

definition capture_and_store :: "config \<Rightarrow> visit \<Rightarrow> detection list \<Rightarrow> env \<Rightarrow> visit" where
  "capture_and_store cfg v ds e =
     (if \<not> encode_ok e then v
      else
        let filename = visit_id v @ ''/'' @ fresh_capture_id e @ ''.jpg'';
            url = (if upload_ok e
                   then SUPABASE_URL cfg @ ''/storage/v1/object/public/''
                          @ STORAGE_BUCKET cfg @ ''/'' @ filename
                   else ''local://'' @ filename);
            capture_data = \<lparr> capture_id = fresh_capture_id e, cap_visit_id = visit_id v,
                             timestamp = capture_clock e, image_url = Some url,
                             detections = Some ds,
                             is_best_capture = (length (captures v) = 0) \<rparr>
        in if insert_ok e then v\<lparr> captures := captures v @ [capture_data] \<rparr> else v)"

text \<open>
  \<open>_handle_state_action\<close>. The visit of a \<open>start_visit\<close> or \<open>capture\<close>
  instruction is the object held in the machine's \<open>current_visit\<close>, so the capture
  appended to it is seen through that slot: the model writes the visit back there. The
  writes to the visits table (\<open>_create_visit_in_db\<close>, \<open>_finalize_visit\<close>) catch
  their own exceptions and leave the detector's memory unchanged.
\<close>

definition handle_state_action ::
  "config \<Rightarrow> VisitStateMachine \<Rightarrow> instruction \<Rightarrow> env \<Rightarrow> error + VisitStateMachine" where
  "handle_state_action cfg m r e =
     (if instr_capture r then
        (case instr_detections r of
           None \<Rightarrow> Inl (KeyError ''detections'')
         | Some ds \<Rightarrow>
             Inr (m\<lparr> current_visit := Some (capture_and_store cfg (instr_visit r) ds e) \<rparr>))
      else Inr m)"

text \<open>
  The body of the loop from the call of \<open>process_detection\<close> on: an exception is
  caught by the loop's handler, which leaves the machine as it is at that point.
\<close>

definition dispatch ::
  "config \<Rightarrow> VisitStateMachine \<Rightarrow> bool \<Rightarrow> detection list \<Rightarrow> env \<Rightarrow>
     (error + instruction option) \<times> VisitStateMachine" where
  "dispatch cfg m detected ds e =
     (case process_detection cfg m detected ds e of
        Inl err \<Rightarrow> (Inl err, m)
      | Inr (None, m') \<Rightarrow> (Inr None, m')
      | Inr (Some r, m') \<Rightarrow>
          (case handle_state_action cfg m' r e of
             Inl err \<Rightarrow> (Inl err, m')
           | Inr m'' \<Rightarrow> (Inr (Some r), m'')))"

record BirdDetector =
  state_machine :: VisitStateMachine
  consecutive_failures :: int
  last_detection_time :: rat
  running :: bool
  loop_errors :: "error list"

text \<open>
  One iteration of \<open>run\<close> reads the wall clock in milliseconds, a frame (which may
  fail, and after ten failures in a row the camera is reconnected), and the outcome of
  \<open>_detect_birds\<close> on the frame: the detections, or the exception the model raised.
  \<open>loop_errors\<close> collects what the handler of the loop logs.
\<close>

record iteration =
  now_ms :: rat
  frame_ok :: bool
  reconnect_ok :: bool
  detect_birds :: "error + detection list"
  loop_env :: env

definition run_iteration :: "config \<Rightarrow> BirdDetector \<Rightarrow> iteration \<Rightarrow> BirdDetector" where
  "run_iteration cfg d it =
     (if now_ms it - last_detection_time d < of_int (DETECTION_INTERVAL_MS cfg) then d
      else if \<not> frame_ok it then
        (let n = consecutive_failures d + 1 in
         if n \<ge> 10 \<and> reconnect_ok it then d\<lparr> consecutive_failures := 0 \<rparr>
         else d\<lparr> consecutive_failures := n \<rparr>)
      else
        (let d1 = d\<lparr> consecutive_failures := 0, last_detection_time := now_ms it \<rparr> in
         case detect_birds it of
           Inl err \<Rightarrow> d1\<lparr> loop_errors := loop_errors d1 @ [err] \<rparr>
         | Inr ds \<Rightarrow>
             (case dispatch cfg (state_machine d1) (length ds > 0) ds (loop_env it) of
                (Inl err, m') \<Rightarrow>
                  d1\<lparr> state_machine := m', loop_errors := loop_errors d1 @ [err] \<rparr>
              | (Inr r, m') \<Rightarrow> d1\<lparr> state_machine := m' \<rparr>)))"

text \<open>
  A tick is one call of the transition function together with the handling of its
  instruction; a run feeds a list of ticks to the machine and collects what each tick
  produced.
\<close>

record tick =
  bird_detected :: bool
  tick_detections :: "detection list"
  tick_env :: env

definition tick_step ::
  "config \<Rightarrow> VisitStateMachine \<Rightarrow> tick \<Rightarrow> (error + instruction option) \<times> VisitStateMachine" where
  "tick_step cfg m tk = dispatch cfg m (bird_detected tk) (tick_detections tk) (tick_env tk)"

fun run_ticks ::
  "config \<Rightarrow> VisitStateMachine \<Rightarrow> tick list \<Rightarrow>
     (error + instruction option) list \<times> VisitStateMachine" where
  "run_ticks cfg m [] = ([], m)"
| "run_ticks cfg m (tk # tks) =
     (let (r, m') = tick_step cfg m tk;
          (rs, m'') = run_ticks cfg m' tks
      in (r # rs, m''))"

section \<open>The species analyzer (\<open>backend/species_analyzer.py\<close>)\<close>

subsection \<open>Best capture\<close>

text \<open>
  The inner loop of \<open>_select_best_capture\<close>: it carries the total area and the
  maximal confidence over the detections whose \<open>bbox\<close> has four entries.
\<close>

fun scan_detections :: "detection list \<Rightarrow> int \<times> rat \<Rightarrow> int \<times> rat" where
  "scan_detections [] acc = acc"
| "scan_detections (d # ds) (total_area, max_confidence) =
     (case bbox d of
        Some [x1, y1, x2, y2] \<Rightarrow>
          scan_detections ds
            (total_area + (x2 - x1) * (y2 - y1),
             max max_confidence (case confidence d of None \<Rightarrow> 0 | Some c \<Rightarrow> c))
      | _ \<Rightarrow> scan_detections ds (total_area, max_confidence))"

text \<open>
  \<open>score = total_area * max_confidence\<close>. \<open>max_confidence\<close> is still the int
  \<open>0\<close> it started from unless some confidence was positive, and then the product is
  the int \<open>0\<close>. Otherwise it is a float, and the product is Python's product of an
  int and a float: it is rounded to a double, and it raises \<open>OverflowError\<close> when
  the int is too large to be converted. That operation is not part of the program; it
  is the parameter \<open>fmul\<close>.
\<close>

type_synonym float_mul = "int \<Rightarrow> rat \<Rightarrow> error + rat"

definition score :: "float_mul \<Rightarrow> capture \<Rightarrow> error + rat" where
  "score fmul c =
     (case scan_detections (case detections c of None \<Rightarrow> [] | Some ds \<Rightarrow> ds) (0, 0) of
        (total_area, max_confidence) \<Rightarrow>
          if max_confidence = 0 then Inr 0 else fmul total_area max_confidence)"

fun best_loop ::
  "float_mul \<Rightarrow> capture list \<Rightarrow> capture option \<times> rat \<Rightarrow> error + (capture option \<times> rat)" where
  "best_loop fmul [] acc = Inr acc"
| "best_loop fmul (c # cs) (best_capture, best_score) =
     (case score fmul c of
        Inl err \<Rightarrow> Inl err
      | Inr sc \<Rightarrow>
          if sc > best_score then best_loop fmul cs (Some c, sc)
          else best_loop fmul cs (best_capture, best_score))"

definition select_best_capture :: "float_mul \<Rightarrow> capture list \<Rightarrow> error + capture" where
  "select_best_capture fmul cs =
     (case best_loop fmul cs (None, 0) of
        Inl err \<Rightarrow> Inl err
      | Inr (Some c, best_score) \<Rightarrow> Inr c
      | Inr (None, best_score) \<Rightarrow>
          (case cs of
             [] \<Rightarrow> Inl (IndexError ''list index out of range'')
           | c # _ \<Rightarrow> Inr c))"

subsection \<open>Species identification with retries\<close>

text \<open>
  The classifier is outside the program. The \<open>n\<close>-th call of
  \<open>chat.completions.create\<close>, followed by \<open>_parse_openai_response\<close> on its
  content, either raises (with the message of the exception) or yields the parsed
  dictionary, whose four keys the code reads with \<open>.get\<close>.
\<close>

record response =
  species_guess :: "string option"
  resp_confidence :: "string option"
  resp_summary :: "string option"
  resp_count :: "int option"

type_synonym classifier = "nat \<Rightarrow> string + response"

text \<open>
  What \<open>_identify_species\<close> did: the tuple it returned or the exception that left
  it, the number of classifier calls it made, and the delays it slept. An exception
  raised inside the \<open>except\<close> handler (the missing attribute
  \<open>OPENAI_RETRY_DELAY_SEC\<close>, or \<open>time.sleep\<close> on a negative delay) leaves the
  function.
\<close>

record identified =
  outcome :: "error + (string \<times> string \<times> string \<times> int)"
  calls :: nat
  sleeps :: "int list"

fun identify_attempts ::
  "config \<Rightarrow> classifier \<Rightarrow> string \<Rightarrow> nat list \<Rightarrow> nat \<Rightarrow> int list \<Rightarrow> identified" where
  "identify_attempts cfg cl url [] n sl =
     \<lparr> outcome = Inr (''unknown'', ''low'', ''Analysis failed after all retries'', 1),
       calls = n, sleeps = sl \<rparr>"
| "identify_attempts cfg cl url (attempt # rest) n sl =
     (if take 4 url \<noteq> ''http'' then
        \<lparr> outcome = Inr (''unknown'', ''low'', ''Image not accessible for analysis'', 1),
          calls = n, sleeps = sl \<rparr>
      else
        (case cl n of
           Inr result \<Rightarrow>
             \<lparr> outcome = Inr
                 ((case species_guess result of None \<Rightarrow> ''unknown'' | Some s \<Rightarrow> s),
                  (case resp_confidence result of None \<Rightarrow> ''low'' | Some c \<Rightarrow> c),
                  (case resp_summary result of None \<Rightarrow> [] | Some s \<Rightarrow> s),
                  (case resp_count result of None \<Rightarrow> 1 | Some k \<Rightarrow> k)),
               calls = Suc n, sleeps = sl \<rparr>
         | Inl msg \<Rightarrow>
             if int attempt < OPENAI_MAX_RETRIES cfg - 1 then
               (case OPENAI_RETRY_DELAY_SEC cfg of
                  None \<Rightarrow>
                    \<lparr> outcome = Inl (AttributeError
                        (''type object '' @ quoted ''Config'' @ '' has no attribute ''
                           @ quoted ''OPENAI_RETRY_DELAY_SEC'')),
                      calls = Suc n, sleeps = sl \<rparr>
                | Some retry_delay \<Rightarrow>
                    (let delay = retry_delay * 2 ^ attempt in
                     if delay < 0 then
                       \<lparr> outcome = Inl (ValueError ''sleep length must be non-negative''),
                         calls = Suc n, sleeps = sl \<rparr>
                     else identify_attempts cfg cl url rest (Suc n) (sl @ [delay])))
             else
               \<lparr> outcome = Inr (''unknown'', ''low'', ''Analysis failed: '' @ msg, 1),
                 calls = Suc n, sleeps = sl \<rparr>))"

definition identify_species :: "config \<Rightarrow> classifier \<Rightarrow> capture \<Rightarrow> identified" where
  "identify_species cfg cl c =
     (case image_url c of
        None \<Rightarrow> \<lparr> outcome = Inl (KeyError ''image_url''), calls = 0, sleeps = [] \<rparr>
      | Some url \<Rightarrow>
          identify_attempts cfg cl url [0..<nat (OPENAI_MAX_RETRIES cfg)] 0 [])"

subsection \<open>The store and the worker\<close>

text \<open>
  The tables the analyzer touches. A row of \<open>visits\<close> is keyed by the visit's
  identifier; an \<open>update(...).eq('id', visit_id)\<close> changes the named columns of the
  row with that key, if there is one. \<open>faults\<close> says which of the store's calls
  raise during one \<open>analyze_visit\<close> (\<open>Some msg\<close>: the call raises with that
  message). The clock is read once per \<open>analyze_visit\<close>.
\<close>

record visit_row =
  row_status :: string
  row_species :: "string option"
  row_species_confidence :: "string option"
  row_summary :: "string option"
  row_bird_count :: int
  row_updated_at :: "time option"

record stats_row =
  total_visits :: int
  first_seen :: time
  last_seen :: time
  stats_updated_at :: time

record database =
  visits :: "string \<rightharpoonup> visit_row"
  captures_table :: "capture list"
  species_stats :: "string \<rightharpoonup> stats_row"

record faults =
  captures_select_fails :: "string option"
  visits_update_fails :: "string option"
  stats_select_fails :: "string option"
  stats_write_fails :: "string option"

definition update_species_stats :: "database \<Rightarrow> faults \<Rightarrow> time \<Rightarrow> string \<Rightarrow> database" where
  "update_species_stats db fl t sp =
     (if sp = [] \<or> sp = ''unknown'' then db
      else
        (case stats_select_fails fl of
           Some msg \<Rightarrow> db
         | None \<Rightarrow>
             (case stats_write_fails fl of
                Some msg \<Rightarrow> db
              | None \<Rightarrow>
                  (case species_stats db sp of
                     Some current \<Rightarrow>
                       db\<lparr> species_stats := (species_stats db)(sp \<mapsto>
                             current\<lparr> total_visits := total_visits current + 1,
                                      last_seen := t, stats_updated_at := t \<rparr>) \<rparr>
                   | None \<Rightarrow>
                       db\<lparr> species_stats := (species_stats db)(sp \<mapsto>
                             \<lparr> total_visits = 1, first_seen = t, last_seen = t,
                               stats_updated_at = t \<rparr>) \<rparr>))))"

definition mark_visit_completed ::
  "database \<Rightarrow> faults \<Rightarrow> time \<Rightarrow> string \<Rightarrow> string \<Rightarrow> string option \<Rightarrow> string \<Rightarrow> int
     \<Rightarrow> database" where
  "mark_visit_completed db fl t vid sp conf summ cnt =
     (case visits_update_fails fl of
        Some msg \<Rightarrow> db
      | None \<Rightarrow>
          update_species_stats
            (case visits db vid of
               None \<Rightarrow> db
             | Some row \<Rightarrow>
                 db\<lparr> visits := (visits db)(vid \<mapsto>
                       row\<lparr> row_status := ''completed'', row_species := Some sp,
                            row_species_confidence := conf, row_summary := Some summ,
                            row_bird_count := cnt, row_updated_at := Some t \<rparr>) \<rparr>)
            fl t sp)"

definition mark_visit_failed ::
  "database \<Rightarrow> faults \<Rightarrow> time \<Rightarrow> string \<Rightarrow> string \<Rightarrow> database" where
  "mark_visit_failed db fl t vid error_message =
     (case visits_update_fails fl of
        Some msg \<Rightarrow> db
      | None \<Rightarrow>
          (case visits db vid of
             None \<Rightarrow> db
           | Some row \<Rightarrow>
               db\<lparr> visits := (visits db)(vid \<mapsto>
                     row\<lparr> row_status := ''failed'', row_species := Some ''unknown'',
                          row_summary := Some (''Analysis failed: '' @ error_message),
                          row_updated_at := Some t \<rparr>) \<rparr>))"

record SpeciesAnalyzer =
  analyzer_config :: config
  openai_client :: "classifier option"

definition new_SpeciesAnalyzer :: "config \<Rightarrow> classifier \<Rightarrow> SpeciesAnalyzer" where
  "new_SpeciesAnalyzer cfg cl =
     \<lparr> analyzer_config = cfg,
       openai_client = (if OPENAI_API_KEY cfg \<noteq> [] then Some cl else None) \<rparr>"

text \<open>What one \<open>analyze_visit\<close> left behind: the store, and what the classifier saw.\<close>

record analysis =
  store :: database
  api_calls :: nat
  backoff :: "int list"

definition analyze_visit ::
  "float_mul \<Rightarrow> SpeciesAnalyzer \<Rightarrow> database \<Rightarrow> faults \<Rightarrow> time \<Rightarrow> string \<Rightarrow> analysis" where
  "analyze_visit fmul a db fl t vid =
     (case openai_client a of
        None \<Rightarrow>
          \<lparr> store = mark_visit_completed db fl t vid ''unknown'' None
                      ''OpenAI API not configured'' 1,
            api_calls = 0, backoff = [] \<rparr>
      | Some cl \<Rightarrow>
          (case captures_select_fails fl of
             Some msg \<Rightarrow>
               \<lparr> store = mark_visit_failed db fl t vid msg, api_calls = 0, backoff = [] \<rparr>
           | None \<Rightarrow>
               (let data = filter (\<lambda>c. cap_visit_id c = vid) (captures_table db) in
                if data = [] then
                  \<lparr> store = mark_visit_completed db fl t vid ''unknown'' None
                              ''No captures available'' 1,
                    api_calls = 0, backoff = [] \<rparr>
                else
                  (case select_best_capture fmul data of
                     Inl err \<Rightarrow>
                       \<lparr> store = mark_visit_failed db fl t vid (str err),
                         api_calls = 0, backoff = [] \<rparr>
                   | Inr best_capture \<Rightarrow>
                       (let r = identify_species (analyzer_config a) cl best_capture in
                        case outcome r of
                          Inl err \<Rightarrow>
                            \<lparr> store = mark_visit_failed db fl t vid (str err),
                              api_calls = calls r, backoff = sleeps r \<rparr>
                        | Inr (sp, conf, summ, cnt) \<Rightarrow>
                            \<lparr> store = mark_visit_completed db fl t vid sp (Some conf)
                                        summ cnt,
                              api_calls = calls r, backoff = sleeps r \<rparr>)))))"

section \<open>Observations and scenarios\<close>

text \<open>
  What a tick produced, as the caller sees it: nothing, or the action of the instruction
  with its \<open>capture\<close> flag (\<open>error\<close> when the tick raised).
\<close>

definition effect :: "error + instruction option \<Rightarrow> (string \<times> bool) option" where
  "effect r = (case r of Inl err \<Rightarrow> Some (''error'', False) | Inr None \<Rightarrow> None
     | Inr (Some i) \<Rightarrow> Some (action i, instr_capture i))"

text \<open>
  Scenario A of the specification: one tick per second, the bird detected at the seconds
  0 to 10 and absent from second 11 on. Everything else a tick carries (the detections,
  the identifiers, the outcome of the stores) is left to \<open>T\<close>.
\<close>

definition scenario_tick :: "(nat \<Rightarrow> tick) \<Rightarrow> nat \<Rightarrow> tick" where
  "scenario_tick T t = (T t)\<lparr> bird_detected := (t \<le> 10),
      tick_env := (tick_env (T t))\<lparr> now := of_nat t \<rparr> \<rparr>"

text \<open>
  The part of the machine that decides the next transition: the state, the three timers
  and a bound on the number of captures of the open visit.
\<close>

definition shape ::
  "VisitState \<Rightarrow> time option \<Rightarrow> time option \<Rightarrow> time option \<Rightarrow> int \<Rightarrow> VisitStateMachine \<Rightarrow> bool" where
  "shape st a c l k m \<longleftrightarrow>
     state m = st \<and> absence_start_time m = a \<and> cooldown_start_time m = c \<and>
     last_capture_time m = l \<and>
     (case current_visit m of None \<Rightarrow> st = IDLE \<or> st = VISIT_COMPLETE
      | Some v \<Rightarrow> int (length (captures v)) \<le> k)"

text \<open>
  \<open>get_state_info\<close>: the state, the identifier of the open visit and the number of
  its captures.
\<close>

definition get_state_info :: "VisitStateMachine \<Rightarrow> VisitState \<times> string option \<times> nat" where
  "get_state_info m =
     (state m,
      (case current_visit m of None \<Rightarrow> None | Some v \<Rightarrow> Some (visit_id v)),
      (case current_visit m of None \<Rightarrow> 0 | Some v \<Rightarrow> length (captures v)))"

text \<open>
  A tick at a given second on which every store succeeds, and the runs used as concrete
  inputs below: scenario B of the specification (a detection at second 0, then three
  absent ticks), a run that fills a visit with five captures, and a machine in its
  cooldown.
\<close>

definition tick_at :: "bool \<Rightarrow> time \<Rightarrow> tick" where
  "tick_at d t = \<lparr> bird_detected = d, tick_detections = [],
     tick_env = \<lparr> now = t, fresh_visit_id = ''visit-1'', visit_clock = t,
       fresh_capture_id = ''capture-1'', capture_clock = t,
       encode_ok = True, upload_ok = True, insert_ok = True \<rparr> \<rparr>"

definition scenario_B :: "tick list" where
  "scenario_B = [tick_at True 0, tick_at False 1, tick_at False 2, tick_at False 3]"

definition scenario_full :: "tick list" where
  "scenario_full = [tick_at True 0, tick_at True 3, tick_at True 6, tick_at True 9,
     tick_at True 12]"

definition machine_complete :: VisitStateMachine where
  "machine_complete = \<lparr> sm_session_id = ''session'', state = VISIT_COMPLETE,
     current_visit = None, absence_start_time = None, cooldown_start_time = Some 16,
     last_capture_time = Some 9 \<rparr>"

text \<open>
  The invariant of the machine: the slot \<open>current_visit\<close> is filled exactly in the
  states \<open>BIRD_PRESENT\<close> and \<open>BIRD_ABSENT\<close>, the visit in it is active, and it
  holds no more captures than the configured maximum (when that maximum is at least 1).
  A tick's result is well formed when it is no error and the visit it carries respects
  the same bound.
\<close>

definition wf_machine :: "config \<Rightarrow> VisitStateMachine \<Rightarrow> bool" where
  "wf_machine cfg m \<longleftrightarrow>
     (case current_visit m of
        None \<Rightarrow> state m = IDLE \<or> state m = VISIT_COMPLETE
      | Some v \<Rightarrow>
          (state m = BIRD_PRESENT \<or> state m = BIRD_ABSENT) \<and> status v = ''active'' \<and>
          (1 \<le> MAX_CAPTURES_PER_VISIT cfg \<longrightarrow>
             int (length (captures v)) \<le> MAX_CAPTURES_PER_VISIT cfg))"

definition wf_result :: "config \<Rightarrow> error + instruction option \<Rightarrow> bool" where
  "wf_result cfg r \<longleftrightarrow>
     (case r of
        Inl err \<Rightarrow> False
      | Inr None \<Rightarrow> True
      | Inr (Some i) \<Rightarrow>
          (1 \<le> MAX_CAPTURES_PER_VISIT cfg \<longrightarrow>
             int (length (captures (instr_visit i))) \<le> MAX_CAPTURES_PER_VISIT cfg))"

text \<open>
  A detector whose machine has just started a visit, and an iteration of the loop on
  which \<open>_detect_birds\<close> raises.
\<close>

definition detector_present :: BirdDetector where
  "detector_present = \<lparr> state_machine =
       snd (run_ticks Config (init_machine ''session'') [tick_at True 0]),
     consecutive_failures = 0, last_detection_time = 0, running = True, loop_errors = [] \<rparr>"

definition iteration_failing :: iteration where
  "iteration_failing = \<lparr> now_ms = 1000, frame_ok = True, reconnect_ok = True,
     detect_birds = Inl (Exception ''inference failed''),
     loop_env = tick_env (tick_at False 1) \<rparr>"

text \<open>
  Captures for the analyzer: one whose only box has \<open>x2 < x1\<close>, one without
  detections, one with a box of 20 by 30 pixels at confidence 1/2.
\<close>

definition capture_inverted :: capture where
  "capture_inverted = \<lparr> capture_id = ''c1'', cap_visit_id = ''visit-1'', timestamp = 0,
     image_url = Some ''https://store/c1.jpg'',
     detections = Some [\<lparr> bbox = Some [0, 0, -1, 1], confidence = Some 1, class_id = 14,
                           class_name = ''bird'', area_ratio = 0 \<rparr>],
     is_best_capture = True \<rparr>"

definition capture_plain :: capture where
  "capture_plain = \<lparr> capture_id = ''c2'', cap_visit_id = ''visit-1'', timestamp = 3,
     image_url = Some ''https://store/c2.jpg'', detections = Some [],
     is_best_capture = False \<rparr>"

definition capture_large :: capture where
  "capture_large = \<lparr> capture_id = ''c3'', cap_visit_id = ''visit-1'', timestamp = 6,
     image_url = Some ''https://store/c3.jpg'',
     detections = Some [\<lparr> bbox = Some [10, 10, 30, 40], confidence = Some (1/2),
                           class_id = 14, class_name = ''bird'', area_ratio = 0 \<rparr>],
     is_best_capture = False \<rparr>"

text \<open>
  A classifier that fails on every call, a store holding one visit in status
  \<open>analyzing\<close> with two captures, and a store none of whose calls raise.
\<close>

definition classifier_down :: classifier where
  "classifier_down n =
     Inl (if n = 0 then ''timeout on call 1''
          else if n = 1 then ''timeout on call 2'' else ''timeout on call 3'')"

definition visits_analyzing :: database where
  "visits_analyzing = \<lparr>
     visits = [''visit-1'' \<mapsto> \<lparr> row_status = ''analyzing'', row_species = None,
        row_species_confidence = None, row_summary = None, row_bird_count = 1,
        row_updated_at = None \<rparr>],
     captures_table = [capture_plain, capture_large],
     species_stats = Map.empty \<rparr>"

definition no_faults :: faults where
  "no_faults = \<lparr> captures_select_fails = None, visits_update_fails = None,
     stats_select_fails = None, stats_write_fails = None \<rparr>"


definition exact_product :: float_mul where
  "exact_product a c = Inr (of_int a * c)"

section \<open>Single transitions\<close>

lemmas sm_defs = tick_step_def dispatch_def process_detection_def start_visit_def capture_photo_def
  complete_visit_def enter_absence_def resume_presence_def should_capture_def
  absence_timeout_elapsed_def cooldown_elapsed_def handle_state_action_def
  Visit_def capture_and_store_def

lemma step_start:
  assumes "shape IDLE a None l k m" "bird_detected tk"
  shows "effect (fst (tick_step cfg m tk)) = Some (''start_visit'', True)"
    and "shape BIRD_PRESENT a None (Some (now (tick_env tk))) 1 (snd (tick_step cfg m tk))"
  using assms by (auto simp: shape_def sm_defs effect_def Let_def)

lemma step_wait:
  assumes "shape BIRD_PRESENT a c (Some l) k m" "bird_detected tk"
    "now (tick_env tk) - l < of_int (CAPTURE_INTERVAL_SEC cfg)"
  shows "effect (fst (tick_step cfg m tk)) = None"
    and "shape BIRD_PRESENT a c (Some l) k (snd (tick_step cfg m tk))"
  using assms by (auto simp: shape_def sm_defs effect_def Let_def split: option.splits)

lemma step_capture:
  assumes "shape BIRD_PRESENT a c (Some l) k m" "bird_detected tk"
    "now (tick_env tk) - l \<ge> of_int (CAPTURE_INTERVAL_SEC cfg)"
    "k < MAX_CAPTURES_PER_VISIT cfg"
  shows "effect (fst (tick_step cfg m tk)) = Some (''capture'', True)"
    and "shape BIRD_PRESENT a c (Some (now (tick_env tk))) (k + 1) (snd (tick_step cfg m tk))"
  using assms by (auto simp: shape_def sm_defs effect_def Let_def split: option.splits)

lemma step_leave:
  assumes "shape BIRD_PRESENT a c l k m" "\<not> bird_detected tk"
  shows "effect (fst (tick_step cfg m tk)) = None"
    and "shape BIRD_ABSENT (Some (now (tick_env tk))) c l k (snd (tick_step cfg m tk))"
  using assms by (auto simp: shape_def sm_defs effect_def Let_def split: option.splits)

lemma step_grace:
  assumes "shape BIRD_ABSENT (Some a) c l k m" "\<not> bird_detected tk"
    "now (tick_env tk) - a < of_int (ABSENCE_GRACE_PERIOD_SEC cfg)"
  shows "effect (fst (tick_step cfg m tk)) = None"
    and "shape BIRD_ABSENT (Some a) c l k (snd (tick_step cfg m tk))"
  using assms by (auto simp: shape_def sm_defs effect_def Let_def split: option.splits)

lemma step_complete:
  assumes "shape BIRD_ABSENT (Some a) c l k m" "\<not> bird_detected tk"
    "now (tick_env tk) - a \<ge> of_int (ABSENCE_GRACE_PERIOD_SEC cfg)"
  shows "effect (fst (tick_step cfg m tk)) = Some (''complete_visit'', False)"
    and "shape VISIT_COMPLETE None (Some (now (tick_env tk))) l 0 (snd (tick_step cfg m tk))"
  using assms by (auto simp: shape_def sm_defs effect_def Let_def split: option.splits)

lemma step_quiet:
  assumes "state m = IDLE \<or> state m = VISIT_COMPLETE" "\<not> bird_detected tk"
  shows "effect (fst (tick_step cfg m tk)) = None"
    and "state (snd (tick_step cfg m tk)) = IDLE \<or> state (snd (tick_step cfg m tk)) = VISIT_COMPLETE"
  using assms by (auto simp: sm_defs effect_def Let_def split: option.splits)

lemma run_ticks_snoc:
  "run_ticks cfg m (tks @ [tk]) =
     (fst (run_ticks cfg m tks) @ [fst (tick_step cfg (snd (run_ticks cfg m tks)) tk)],
      snd (tick_step cfg (snd (run_ticks cfg m tks)) tk))"
  by (induction tks arbitrary: m) (auto simp: split_def Let_def)

lemma run_ticks_append:
  "run_ticks cfg m (xs @ ys) =
     (fst (run_ticks cfg m xs) @ fst (run_ticks cfg (snd (run_ticks cfg m xs)) ys),
      snd (run_ticks cfg (snd (run_ticks cfg m xs)) ys))"
  by (induction xs arbitrary: m) (auto simp: split_def Let_def)

lemma quiet_run:
  assumes "state m = IDLE \<or> state m = VISIT_COMPLETE" "\<forall>tk \<in> set tks. \<not> bird_detected tk"
  shows "map effect (fst (run_ticks cfg m tks)) = replicate (length tks) None"
  using assms
proof (induction tks arbitrary: m)
  case Nil
  then show ?case by simp
next
  case (Cons tk tks)
  have q: "state (snd (tick_step cfg m tk)) = IDLE \<or> state (snd (tick_step cfg m tk)) = VISIT_COMPLETE"
    using step_quiet(2)[of m tk cfg] Cons.prems by simp
  have e: "effect (fst (tick_step cfg m tk)) = None"
    using step_quiet(1)[of m tk cfg] Cons.prems by simp
  show ?case using Cons.IH[OF q] Cons.prems e by (simp add: split_def Let_def)
qed

text \<open>
  C3: with grace period 5 s, cooldown 15 s, capture interval 3 s and at most 5 captures
  (the values of \<open>Config\<close>), detected ticks at the seconds 0 to 10 and absent ticks
  from second 11 on produce exactly one \<open>start_visit\<close> (at second 0, with a
  capture), capture instructions at the seconds 3, 6 and 9, \<open>complete_visit\<close> at
  second 16, and nothing at any other second, however long the absence lasts.
\<close>

theorem scenario_A:
  "map effect (fst (run_ticks Config (init_machine sid) (map (scenario_tick T) [0..<17 + n])))
     = [Some (''start_visit'', True), None, None, Some (''capture'', True), None, None,
        Some (''capture'', True), None, None, Some (''capture'', True), None,
        None, None, None, None, None, Some (''complete_visit'', False)] @ replicate n None"
proof -
  define R where "R k = run_ticks Config (init_machine sid) (map (scenario_tick T) [0..<k])" for k
  have RS: "R (Suc k) = (fst (R k) @ [fst (tick_step Config (snd (R k)) (scenario_tick T k))],
      snd (tick_step Config (snd (R k)) (scenario_tick T k)))" for k
    by (simp add: R_def run_ticks_snoc)
  have d: "bird_detected (scenario_tick T t) = (t \<le> 10)" for t
    by (simp add: scenario_tick_def)
  have nw: "now (tick_env (scenario_tick T t)) = of_nat t" for t
    by (simp add: scenario_tick_def)
  have cf: "CAPTURE_INTERVAL_SEC Config = 3" "ABSENCE_GRACE_PERIOD_SEC Config = 5"
    "MAX_CAPTURES_PER_VISIT Config = 5"
    by (simp_all add: Config_def)
  have s0: "shape IDLE None None None 0 (snd (R 0))"
    by (simp add: R_def shape_def init_machine_def)
  have e0: "map effect (fst (R 0)) = []"
    by (simp add: R_def)
  have r1: "R 1 = (fst (R 0) @ [fst (tick_step Config (snd (R 0)) (scenario_tick T 0))],
      snd (tick_step Config (snd (R 0)) (scenario_tick T 0)))"
  proof -
    have h: "R 1 = R (Suc 0)" by (rule arg_cong[of _ _ R]) arith
    show ?thesis unfolding h by (rule RS)
  qed
  have s1: "shape BIRD_PRESENT None None (Some 0) 1 (snd (R 1))"
    unfolding r1 snd_conv
    using step_start(2)[where cfg = Config and tk = "scenario_tick T 0", OF s0]
    by (simp add: d nw cf)
  have e1: "map effect (fst (R 1)) = [Some (''start_visit'', True)]"
    unfolding r1 fst_conv map_append
    using step_start(1)[where cfg = Config and tk = "scenario_tick T 0", OF s0] e0
    by (simp add: d nw cf)
  have r2: "R 2 = (fst (R 1) @ [fst (tick_step Config (snd (R 1)) (scenario_tick T 1))],
      snd (tick_step Config (snd (R 1)) (scenario_tick T 1)))"
  proof -
    have h: "R 2 = R (Suc 1)" by (rule arg_cong[of _ _ R]) arith
    show ?thesis unfolding h by (rule RS)
  qed
  have s2: "shape BIRD_PRESENT None None (Some 0) 1 (snd (R 2))"
    unfolding r2 snd_conv
    using step_wait(2)[where cfg = Config and tk = "scenario_tick T 1", OF s1]
    by (simp add: d nw cf)
  have e2: "map effect (fst (R 2)) = [Some (''start_visit'', True), None]"
    unfolding r2 fst_conv map_append
    using step_wait(1)[where cfg = Config and tk = "scenario_tick T 1", OF s1] e1
    by (simp add: d nw cf)
  have r3: "R 3 = (fst (R 2) @ [fst (tick_step Config (snd (R 2)) (scenario_tick T 2))],
      snd (tick_step Config (snd (R 2)) (scenario_tick T 2)))"
  proof -
    have h: "R 3 = R (Suc 2)" by (rule arg_cong[of _ _ R]) arith
    show ?thesis unfolding h by (rule RS)
  qed
  have s3: "shape BIRD_PRESENT None None (Some 0) 1 (snd (R 3))"
    unfolding r3 snd_conv
    using step_wait(2)[where cfg = Config and tk = "scenario_tick T 2", OF s2]
    by (simp add: d nw cf)
  have e3: "map effect (fst (R 3)) = [Some (''start_visit'', True), None, None]"
    unfolding r3 fst_conv map_append
    using step_wait(1)[where cfg = Config and tk = "scenario_tick T 2", OF s2] e2
    by (simp add: d nw cf)
  have r4: "R 4 = (fst (R 3) @ [fst (tick_step Config (snd (R 3)) (scenario_tick T 3))],
      snd (tick_step Config (snd (R 3)) (scenario_tick T 3)))"
  proof -
    have h: "R 4 = R (Suc 3)" by (rule arg_cong[of _ _ R]) arith
    show ?thesis unfolding h by (rule RS)
  qed
  have s4: "shape BIRD_PRESENT None None (Some 3) 2 (snd (R 4))"
    unfolding r4 snd_conv
    using step_capture(2)[where cfg = Config and tk = "scenario_tick T 3", OF s3]
    by (simp add: d nw cf)
  have e4: "map effect (fst (R 4)) = [Some (''start_visit'', True), None, None, Some (''capture'', True)]"
    unfolding r4 fst_conv map_append
    using step_capture(1)[where cfg = Config and tk = "scenario_tick T 3", OF s3] e3
    by (simp add: d nw cf)
  have r5: "R 5 = (fst (R 4) @ [fst (tick_step Config (snd (R 4)) (scenario_tick T 4))],
      snd (tick_step Config (snd (R 4)) (scenario_tick T 4)))"
  proof -
    have h: "R 5 = R (Suc 4)" by (rule arg_cong[of _ _ R]) arith
    show ?thesis unfolding h by (rule RS)
  qed
  have s5: "shape BIRD_PRESENT None None (Some 3) 2 (snd (R 5))"
    unfolding r5 snd_conv
    using step_wait(2)[where cfg = Config and tk = "scenario_tick T 4", OF s4]
    by (simp add: d nw cf)
  have e5: "map effect (fst (R 5)) = [Some (''start_visit'', True), None, None, Some (''capture'', True), None]"
    unfolding r5 fst_conv map_append
    using step_wait(1)[where cfg = Config and tk = "scenario_tick T 4", OF s4] e4
    by (simp add: d nw cf)
  have r6: "R 6 = (fst (R 5) @ [fst (tick_step Config (snd (R 5)) (scenario_tick T 5))],
      snd (tick_step Config (snd (R 5)) (scenario_tick T 5)))"
  proof -
    have h: "R 6 = R (Suc 5)" by (rule arg_cong[of _ _ R]) arith
    show ?thesis unfolding h by (rule RS)
  qed
  have s6: "shape BIRD_PRESENT None None (Some 3) 2 (snd (R 6))"
    unfolding r6 snd_conv
    using step_wait(2)[where cfg = Config and tk = "scenario_tick T 5", OF s5]
    by (simp add: d nw cf)
  have e6: "map effect (fst (R 6)) = [Some (''start_visit'', True), None, None, Some (''capture'', True), None, None]"
    unfolding r6 fst_conv map_append
    using step_wait(1)[where cfg = Config and tk = "scenario_tick T 5", OF s5] e5
    by (simp add: d nw cf)
  have r7: "R 7 = (fst (R 6) @ [fst (tick_step Config (snd (R 6)) (scenario_tick T 6))],
      snd (tick_step Config (snd (R 6)) (scenario_tick T 6)))"
  proof -
    have h: "R 7 = R (Suc 6)" by (rule arg_cong[of _ _ R]) arith
    show ?thesis unfolding h by (rule RS)
  qed
  have s7: "shape BIRD_PRESENT None None (Some 6) 3 (snd (R 7))"
    unfolding r7 snd_conv
    using step_capture(2)[where cfg = Config and tk = "scenario_tick T 6", OF s6]
    by (simp add: d nw cf)
  have e7: "map effect (fst (R 7)) = [Some (''start_visit'', True), None, None, Some (''capture'', True), None, None, Some (''capture'', True)]"
    unfolding r7 fst_conv map_append
    using step_capture(1)[where cfg = Config and tk = "scenario_tick T 6", OF s6] e6
    by (simp add: d nw cf)
  have r8: "R 8 = (fst (R 7) @ [fst (tick_step Config (snd (R 7)) (scenario_tick T 7))],
      snd (tick_step Config (snd (R 7)) (scenario_tick T 7)))"
  proof -
    have h: "R 8 = R (Suc 7)" by (rule arg_cong[of _ _ R]) arith
    show ?thesis unfolding h by (rule RS)
  qed
  have s8: "shape BIRD_PRESENT None None (Some 6) 3 (snd (R 8))"
    unfolding r8 snd_conv
    using step_wait(2)[where cfg = Config and tk = "scenario_tick T 7", OF s7]
    by (simp add: d nw cf)
  have e8: "map effect (fst (R 8)) = [Some (''start_visit'', True), None, None, Some (''capture'', True), None, None, Some (''capture'', True), None]"
    unfolding r8 fst_conv map_append
    using step_wait(1)[where cfg = Config and tk = "scenario_tick T 7", OF s7] e7
    by (simp add: d nw cf)
  have r9: "R 9 = (fst (R 8) @ [fst (tick_step Config (snd (R 8)) (scenario_tick T 8))],
      snd (tick_step Config (snd (R 8)) (scenario_tick T 8)))"
  proof -
    have h: "R 9 = R (Suc 8)" by (rule arg_cong[of _ _ R]) arith
    show ?thesis unfolding h by (rule RS)
  qed
  have s9: "shape BIRD_PRESENT None None (Some 6) 3 (snd (R 9))"
    unfolding r9 snd_conv
    using step_wait(2)[where cfg = Config and tk = "scenario_tick T 8", OF s8]
    by (simp add: d nw cf)
  have e9: "map effect (fst (R 9)) = [Some (''start_visit'', True), None, None, Some (''capture'', True), None, None, Some (''capture'', True), None, None]"
    unfolding r9 fst_conv map_append
    using step_wait(1)[where cfg = Config and tk = "scenario_tick T 8", OF s8] e8
    by (simp add: d nw cf)
  have r10: "R 10 = (fst (R 9) @ [fst (tick_step Config (snd (R 9)) (scenario_tick T 9))],
      snd (tick_step Config (snd (R 9)) (scenario_tick T 9)))"
  proof -
    have h: "R 10 = R (Suc 9)" by (rule arg_cong[of _ _ R]) arith
    show ?thesis unfolding h by (rule RS)
  qed
  have s10: "shape BIRD_PRESENT None None (Some 9) 4 (snd (R 10))"
    unfolding r10 snd_conv
    using step_capture(2)[where cfg = Config and tk = "scenario_tick T 9", OF s9]
    by (simp add: d nw cf)
  have e10: "map effect (fst (R 10)) = [Some (''start_visit'', True), None, None, Some (''capture'', True), None, None, Some (''capture'', True), None, None, Some (''capture'', True)]"
    unfolding r10 fst_conv map_append
    using step_capture(1)[where cfg = Config and tk = "scenario_tick T 9", OF s9] e9
    by (simp add: d nw cf)
  have r11: "R 11 = (fst (R 10) @ [fst (tick_step Config (snd (R 10)) (scenario_tick T 10))],
      snd (tick_step Config (snd (R 10)) (scenario_tick T 10)))"
  proof -
    have h: "R 11 = R (Suc 10)" by (rule arg_cong[of _ _ R]) arith
    show ?thesis unfolding h by (rule RS)
  qed
  have s11: "shape BIRD_PRESENT None None (Some 9) 4 (snd (R 11))"
    unfolding r11 snd_conv
    using step_wait(2)[where cfg = Config and tk = "scenario_tick T 10", OF s10]
    by (simp add: d nw cf)
  have e11: "map effect (fst (R 11)) = [Some (''start_visit'', True), None, None, Some (''capture'', True), None, None, Some (''capture'', True), None, None, Some (''capture'', True), None]"
    unfolding r11 fst_conv map_append
    using step_wait(1)[where cfg = Config and tk = "scenario_tick T 10", OF s10] e10
    by (simp add: d nw cf)
  have r12: "R 12 = (fst (R 11) @ [fst (tick_step Config (snd (R 11)) (scenario_tick T 11))],
      snd (tick_step Config (snd (R 11)) (scenario_tick T 11)))"
  proof -
    have h: "R 12 = R (Suc 11)" by (rule arg_cong[of _ _ R]) arith
    show ?thesis unfolding h by (rule RS)
  qed
  have s12: "shape BIRD_ABSENT (Some 11) None (Some 9) 4 (snd (R 12))"
    unfolding r12 snd_conv
    using step_leave(2)[where cfg = Config and tk = "scenario_tick T 11", OF s11]
    by (simp add: d nw cf)
  have e12: "map effect (fst (R 12)) = [Some (''start_visit'', True), None, None, Some (''capture'', True), None, None, Some (''capture'', True), None, None, Some (''capture'', True), None, None]"
    unfolding r12 fst_conv map_append
    using step_leave(1)[where cfg = Config and tk = "scenario_tick T 11", OF s11] e11
    by (simp add: d nw cf)
  have r13: "R 13 = (fst (R 12) @ [fst (tick_step Config (snd (R 12)) (scenario_tick T 12))],
      snd (tick_step Config (snd (R 12)) (scenario_tick T 12)))"
  proof -
    have h: "R 13 = R (Suc 12)" by (rule arg_cong[of _ _ R]) arith
    show ?thesis unfolding h by (rule RS)
  qed
  have s13: "shape BIRD_ABSENT (Some 11) None (Some 9) 4 (snd (R 13))"
    unfolding r13 snd_conv
    using step_grace(2)[where cfg = Config and tk = "scenario_tick T 12", OF s12]
    by (simp add: d nw cf)
  have e13: "map effect (fst (R 13)) = [Some (''start_visit'', True), None, None, Some (''capture'', True), None, None, Some (''capture'', True), None, None, Some (''capture'', True), None, None, None]"
    unfolding r13 fst_conv map_append
    using step_grace(1)[where cfg = Config and tk = "scenario_tick T 12", OF s12] e12
    by (simp add: d nw cf)
  have r14: "R 14 = (fst (R 13) @ [fst (tick_step Config (snd (R 13)) (scenario_tick T 13))],
      snd (tick_step Config (snd (R 13)) (scenario_tick T 13)))"
  proof -
    have h: "R 14 = R (Suc 13)" by (rule arg_cong[of _ _ R]) arith
    show ?thesis unfolding h by (rule RS)
  qed
  have s14: "shape BIRD_ABSENT (Some 11) None (Some 9) 4 (snd (R 14))"
    unfolding r14 snd_conv
    using step_grace(2)[where cfg = Config and tk = "scenario_tick T 13", OF s13]
    by (simp add: d nw cf)
  have e14: "map effect (fst (R 14)) = [Some (''start_visit'', True), None, None, Some (''capture'', True), None, None, Some (''capture'', True), None, None, Some (''capture'', True), None, None, None, None]"
    unfolding r14 fst_conv map_append
    using step_grace(1)[where cfg = Config and tk = "scenario_tick T 13", OF s13] e13
    by (simp add: d nw cf)
  have r15: "R 15 = (fst (R 14) @ [fst (tick_step Config (snd (R 14)) (scenario_tick T 14))],
      snd (tick_step Config (snd (R 14)) (scenario_tick T 14)))"
  proof -
    have h: "R 15 = R (Suc 14)" by (rule arg_cong[of _ _ R]) arith
    show ?thesis unfolding h by (rule RS)
  qed
  have s15: "shape BIRD_ABSENT (Some 11) None (Some 9) 4 (snd (R 15))"
    unfolding r15 snd_conv
    using step_grace(2)[where cfg = Config and tk = "scenario_tick T 14", OF s14]
    by (simp add: d nw cf)
  have e15: "map effect (fst (R 15)) = [Some (''start_visit'', True), None, None, Some (''capture'', True), None, None, Some (''capture'', True), None, None, Some (''capture'', True), None, None, None, None, None]"
    unfolding r15 fst_conv map_append
    using step_grace(1)[where cfg = Config and tk = "scenario_tick T 14", OF s14] e14
    by (simp add: d nw cf)
  have r16: "R 16 = (fst (R 15) @ [fst (tick_step Config (snd (R 15)) (scenario_tick T 15))],
      snd (tick_step Config (snd (R 15)) (scenario_tick T 15)))"
  proof -
    have h: "R 16 = R (Suc 15)" by (rule arg_cong[of _ _ R]) arith
    show ?thesis unfolding h by (rule RS)
  qed
  have s16: "shape BIRD_ABSENT (Some 11) None (Some 9) 4 (snd (R 16))"
    unfolding r16 snd_conv
    using step_grace(2)[where cfg = Config and tk = "scenario_tick T 15", OF s15]
    by (simp add: d nw cf)
  have e16: "map effect (fst (R 16)) = [Some (''start_visit'', True), None, None, Some (''capture'', True), None, None, Some (''capture'', True), None, None, Some (''capture'', True), None, None, None, None, None, None]"
    unfolding r16 fst_conv map_append
    using step_grace(1)[where cfg = Config and tk = "scenario_tick T 15", OF s15] e15
    by (simp add: d nw cf)
  have r17: "R 17 = (fst (R 16) @ [fst (tick_step Config (snd (R 16)) (scenario_tick T 16))],
      snd (tick_step Config (snd (R 16)) (scenario_tick T 16)))"
  proof -
    have h: "R 17 = R (Suc 16)" by (rule arg_cong[of _ _ R]) arith
    show ?thesis unfolding h by (rule RS)
  qed
  have s17: "shape VISIT_COMPLETE None (Some 16) (Some 9) 0 (snd (R 17))"
    unfolding r17 snd_conv
    using step_complete(2)[where cfg = Config and tk = "scenario_tick T 16", OF s16]
    by (simp add: d nw cf)
  have e17: "map effect (fst (R 17)) = [Some (''start_visit'', True), None, None, Some (''capture'', True), None, None, Some (''capture'', True), None, None, Some (''capture'', True), None, None, None, None, None, None, Some (''complete_visit'', False)]"
    unfolding r17 fst_conv map_append
    using step_complete(1)[where cfg = Config and tk = "scenario_tick T 16", OF s16] e16
    by (simp add: d nw cf)
  have "[0..<17 + n] = [0..<17] @ [17..<17 + n]"
    by (rule upt_add_eq_append) simp
  then have split: "map (scenario_tick T) [0..<17 + n]
      = map (scenario_tick T) [0..<17] @ map (scenario_tick T) [17..<17 + n]"
    by (simp only: map_append)
  have q: "state (snd (R 17)) = IDLE \<or> state (snd (R 17)) = VISIT_COMPLETE"
    using s17 by (simp add: shape_def)
  have away: "\<forall>tk \<in> set (map (scenario_tick T) [17..<17 + n]). \<not> bird_detected tk"
    by (auto simp: d)
  have tail: "map effect (fst (run_ticks Config (snd (R 17)) (map (scenario_tick T) [17..<17 + n])))
      = replicate n None"
    using quiet_run[OF q away, of Config] by simp
  show ?thesis
    unfolding split run_ticks_append fst_conv map_append
    using e17 tail unfolding R_def by (simp only:)
qed

section \<open>Invariants of the machine\<close>

lemma wf_init: "wf_machine cfg (init_machine sid)"
  by (simp add: wf_machine_def init_machine_def)

lemma wf_step:
  assumes "wf_machine cfg m"
  shows "wf_machine cfg (snd (tick_step cfg m tk))" and "wf_result cfg (fst (tick_step cfg m tk))"
  using assms
  by (cases "state m"; auto simp: wf_machine_def wf_result_def sm_defs Let_def
        split: option.splits if_splits)+

lemma wf_run:
  assumes "wf_machine cfg m"
  shows "wf_machine cfg (snd (run_ticks cfg m tks))"
    and "\<forall>r \<in> set (fst (run_ticks cfg m tks)). wf_result cfg r"
  using assms
proof (induction tks arbitrary: m)
  case Nil
  { case 1 then show ?case by simp }
  { case 2 then show ?case by simp }
next
  case (Cons tk tks)
  { case 1
    then show ?case using Cons.IH(1)[OF wf_step(1)[of cfg m tk]] by (simp add: split_def Let_def) }
  { case 2
    then show ?case using Cons.IH(2)[OF wf_step(1)[of cfg m tk]] wf_step(2)[of cfg m tk]
      by (simp add: split_def Let_def) }
qed

lemma wf_process:
  assumes "wf_machine cfg m"
  shows "\<exists>res. process_detection cfg m d ds e = Inr res"
  using assms
  by (cases "state m"; auto simp: wf_machine_def sm_defs Let_def split: option.splits)

text \<open>
  C2: after any sequence of ticks from the initial \<open>IDLE\<close> machine, the slot
  \<open>current_visit\<close> holds at most one visit and that visit is active; a
  \<open>start_visit\<close> instruction is produced only when the slot was empty, and it fills
  the slot with the new active visit; a \<open>complete_visit\<close> instruction hands the
  visit out with status \<open>analyzing\<close> and empties the slot.
\<close>

theorem one_open_visit:
  "(\<forall>v. current_visit (snd (run_ticks cfg (init_machine sid) tks)) = Some v
        \<longrightarrow> status v = ''active'') \<and>
   (\<forall>d ds e r m'.
      process_detection cfg (snd (run_ticks cfg (init_machine sid) tks)) d ds e
        = Inr (Some r, m') \<and> action r = ''start_visit''
      \<longrightarrow> current_visit (snd (run_ticks cfg (init_machine sid) tks)) = None \<and>
          current_visit m' = Some (instr_visit r) \<and> status (instr_visit r) = ''active'') \<and>
   (\<forall>d ds e r m'.
      process_detection cfg (snd (run_ticks cfg (init_machine sid) tks)) d ds e
        = Inr (Some r, m') \<and> action r = ''complete_visit''
      \<longrightarrow> current_visit m' = None \<and> status (instr_visit r) = ''analyzing'')"
proof -
  let ?m = "snd (run_ticks cfg (init_machine sid) tks)"
  have wf: "wf_machine cfg ?m"
    by (rule wf_run(1)[OF wf_init])
  have a: "\<forall>v. current_visit ?m = Some v \<longrightarrow> status v = ''active''"
    using wf by (auto simp: wf_machine_def)
  have b: "\<forall>d ds e r m'. process_detection cfg ?m d ds e = Inr (Some r, m')
        \<and> action r = ''start_visit''
      \<longrightarrow> current_visit ?m = None \<and> current_visit m' = Some (instr_visit r)
          \<and> status (instr_visit r) = ''active''"
    using wf
    by (cases "state ?m"; auto simp: wf_machine_def process_detection_def start_visit_def
          capture_photo_def complete_visit_def Visit_def Let_def
          split: option.splits if_splits)
  have c: "\<forall>d ds e r m'. process_detection cfg ?m d ds e = Inr (Some r, m')
        \<and> action r = ''complete_visit''
      \<longrightarrow> current_visit m' = None \<and> status (instr_visit r) = ''analyzing''"
    using wf
    by (cases "state ?m"; auto simp: wf_machine_def process_detection_def start_visit_def
          capture_photo_def complete_visit_def Visit_def Let_def
          split: option.splits if_splits)
  show ?thesis using a b c by blast
qed

theorem one_open_visit_witness:
  "current_visit (snd (run_ticks Config (init_machine ''session'') [])) = None \<and>
   action (the (fst (start_visit (init_machine ''session'') [] (tick_env (tick_at True 0)))))
     = ''start_visit'' \<and>
   status (instr_visit
     (the (fst (start_visit (init_machine ''session'') [] (tick_env (tick_at True 0))))))
     = ''active''"
proof -
  let ?m = "snd (run_ticks Config (init_machine ''session'') [])"
  let ?e = "tick_env (tick_at True 0)"
  let ?r = "the (fst (start_visit (init_machine ''session'') [] ?e))"
  let ?m' = "snd (start_visit (init_machine ''session'') [] ?e)"
  have ev: "process_detection Config ?m True [] ?e = Inr (Some ?r, ?m')"
    by (simp add: process_detection_def cooldown_elapsed_def init_machine_def
          start_visit_def Let_def)
  have act: "action ?r = ''start_visit''"
    by (simp add: start_visit_def Let_def)
  from one_open_visit[of Config "''session''" "[]"] ev act
  have "current_visit ?m = None \<and> status (instr_visit ?r) = ''active''"
    by blast
  with act show ?thesis by simp
qed

text \<open>
  C5: in \<open>BIRD_ABSENT\<close> with an open visit, a detected tick (whether or not the grace
  period has run out by then) returns to \<open>BIRD_PRESENT\<close> with the same visit in the
  slot, clears \<open>absence_start_time\<close> and produces no instruction: no visit is
  started and none is completed. The next capture that is due goes to that same visit.
\<close>

theorem resume_same_visit:
  assumes "state m = BIRD_ABSENT" and "current_visit m = Some v"
  shows "process_detection cfg m True ds e
           = Inr (None, m\<lparr> state := BIRD_PRESENT, absence_start_time := None \<rparr>) \<and>
         current_visit (m\<lparr> state := BIRD_PRESENT, absence_start_time := None \<rparr>) = Some v \<and>
         (\<forall>ds' e'. should_capture cfg m (now e') \<and>
              int (length (captures v)) < MAX_CAPTURES_PER_VISIT cfg \<longrightarrow>
            process_detection cfg (m\<lparr> state := BIRD_PRESENT, absence_start_time := None \<rparr>)
                True ds' e'
              = Inr (Some \<lparr> action = ''capture'', instr_visit = v, instr_capture = True,
                             instr_detections = Some ds' \<rparr>,
                     m\<lparr> state := BIRD_PRESENT, absence_start_time := None,
                        last_capture_time := Some (now e') \<rparr>))"
  using assms
  by (simp add: process_detection_def resume_presence_def should_capture_def
        capture_photo_def)

theorem resume_same_visit_witness:
  "state (snd (run_ticks Config (init_machine ''session'') scenario_B)) = BIRD_ABSENT \<and>
   current_visit (snd (run_ticks Config (init_machine ''session'') scenario_B)) \<noteq> None \<and>
   get_state_info (snd (tick_step Config
       (snd (run_ticks Config (init_machine ''session'') scenario_B)) (tick_at True 4)))
     = (BIRD_PRESENT, Some ''visit-1'', 1)"
proof -
  let ?m = "snd (run_ticks Config (init_machine ''session'') scenario_B)"
  have st: "state ?m = BIRD_ABSENT"
    by (simp add: scenario_B_def tick_at_def sm_defs init_machine_def Config_def Let_def)
  have info: "get_state_info ?m = (BIRD_ABSENT, Some ''visit-1'', 1)"
    by (simp add: scenario_B_def tick_at_def sm_defs init_machine_def Config_def Let_def
          get_state_info_def)
  then obtain v where v: "current_visit ?m = Some v"
    by (cases "current_visit ?m") (auto simp: get_state_info_def)
  from resume_same_visit[OF st v, of Config "[]" "tick_env (tick_at True 4)"]
  have "process_detection Config ?m True [] (tick_env (tick_at True 4))
      = Inr (None, ?m\<lparr> state := BIRD_PRESENT, absence_start_time := None \<rparr>)"
    by blast
  then have "snd (tick_step Config ?m (tick_at True 4))
      = ?m\<lparr> state := BIRD_PRESENT, absence_start_time := None \<rparr>"
    by (simp add: tick_step_def dispatch_def tick_at_def)
  with st v info show ?thesis
    by (simp add: get_state_info_def)
qed

text \<open>
  C6: in \<open>VISIT_COMPLETE\<close>, a tick at which the cooldown has elapsed is handled as
  the same tick in \<open>IDLE\<close>: a detected tick starts a new visit at once (instruction
  \<open>start_visit\<close> with \<open>capture\<close> set, state \<open>BIRD_PRESENT\<close>), a tick
  without detection leaves the machine in \<open>IDLE\<close>; while the cooldown has not
  elapsed the machine stays as it is and produces nothing.
\<close>

theorem complete_reevaluates_as_idle:
  assumes "state m = VISIT_COMPLETE"
  shows "(cooldown_elapsed cfg m (now e) \<longrightarrow>
            process_detection cfg m d ds e
              = process_detection cfg (m\<lparr> state := IDLE \<rparr>) d ds e \<and>
            process_detection cfg m True ds e
              = Inr (Some \<lparr> action = ''start_visit'',
                             instr_visit = Visit (sm_session_id m) e,
                             instr_capture = True, instr_detections = Some ds \<rparr>,
                     m\<lparr> current_visit := Some (Visit (sm_session_id m) e),
                        state := BIRD_PRESENT, last_capture_time := Some (now e) \<rparr>) \<and>
            process_detection cfg m False ds e = Inr (None, m\<lparr> state := IDLE \<rparr>)) \<and>
         (\<not> cooldown_elapsed cfg m (now e) \<longrightarrow>
            process_detection cfg m d ds e = Inr (None, m))"
  using assms
  by (simp add: process_detection_def cooldown_elapsed_def start_visit_def Let_def)

theorem complete_reevaluates_as_idle_witness:
  "state machine_complete = VISIT_COMPLETE \<and>
   cooldown_elapsed Config machine_complete (now (tick_env (tick_at True 31))) \<and>
   \<not> cooldown_elapsed Config machine_complete (now (tick_env (tick_at True 20))) \<and>
   get_state_info (snd (tick_step Config machine_complete (tick_at True 31)))
     = (BIRD_PRESENT, Some ''visit-1'', 1) \<and>
   tick_step Config machine_complete (tick_at True 20) = (Inr None, machine_complete)"
proof -
  have st: "state machine_complete = VISIT_COMPLETE"
    by (simp add: machine_complete_def)
  have el: "cooldown_elapsed Config machine_complete (now (tick_env (tick_at True 31)))"
    by (simp add: cooldown_elapsed_def machine_complete_def tick_at_def Config_def)
  have nel: "\<not> cooldown_elapsed Config machine_complete (now (tick_env (tick_at True 20)))"
    by (simp add: cooldown_elapsed_def machine_complete_def tick_at_def Config_def)
  note thm31 = complete_reevaluates_as_idle[OF st, of Config "tick_env (tick_at True 31)" True "[]"]
  note thm20 = complete_reevaluates_as_idle[OF st, of Config "tick_env (tick_at True 20)" True "[]"]
  let ?e31 = "tick_env (tick_at True 31)"
  have p31: "process_detection Config machine_complete True [] ?e31
      = Inr (Some \<lparr> action = ''start_visit'',
                     instr_visit = Visit (sm_session_id machine_complete) ?e31,
                     instr_capture = True, instr_detections = Some [] \<rparr>,
             machine_complete\<lparr> current_visit := Some (Visit (sm_session_id machine_complete) ?e31),
                state := BIRD_PRESENT, last_capture_time := Some (now ?e31) \<rparr>)"
    using thm31 el by blast
  have p20: "process_detection Config machine_complete True [] (tick_env (tick_at True 20))
      = Inr (None, machine_complete)"
    using thm20 nel by blast
  have a: "get_state_info (snd (tick_step Config machine_complete (tick_at True 31)))
     = (BIRD_PRESENT, Some ''visit-1'', 1)"
    using p31
    by (simp add: tick_step_def dispatch_def tick_at_def handle_state_action_def
          capture_and_store_def Visit_def get_state_info_def Let_def)
  have b: "tick_step Config machine_complete (tick_at True 20) = (Inr None, machine_complete)"
    using p20 by (simp add: tick_step_def dispatch_def tick_at_def)
  from st el nel a b show ?thesis by blast
qed

text \<open>
  C10: in every state reached from the initial machine, \<open>BIRD_PRESENT\<close> and
  \<open>BIRD_ABSENT\<close> come with a filled slot; so \<open>process_detection\<close> never raises
  there, whatever the next input, and no tick of any run ends in an error.
\<close>

theorem visit_never_missing:
  "(state (snd (run_ticks cfg (init_machine sid) tks)) = BIRD_PRESENT \<or>
    state (snd (run_ticks cfg (init_machine sid) tks)) = BIRD_ABSENT
      \<longrightarrow> current_visit (snd (run_ticks cfg (init_machine sid) tks)) \<noteq> None) \<and>
   (\<forall>d ds e. \<exists>res.
      process_detection cfg (snd (run_ticks cfg (init_machine sid) tks)) d ds e = Inr res) \<and>
   (\<forall>r \<in> set (fst (run_ticks cfg (init_machine sid) tks)). \<exists>i. r = Inr i)"
proof -
  let ?m = "snd (run_ticks cfg (init_machine sid) tks)"
  have wf: "wf_machine cfg ?m"
    by (rule wf_run(1)[OF wf_init])
  have a: "state ?m = BIRD_PRESENT \<or> state ?m = BIRD_ABSENT \<longrightarrow> current_visit ?m \<noteq> None"
    using wf by (auto simp: wf_machine_def split: option.splits)
  have b: "\<forall>d ds e. \<exists>res. process_detection cfg ?m d ds e = Inr res"
    using wf_process[OF wf] by blast
  have c: "\<forall>r \<in> set (fst (run_ticks cfg (init_machine sid) tks)). \<exists>i. r = Inr i"
  proof
    fix r assume "r \<in> set (fst (run_ticks cfg (init_machine sid) tks))"
    then have "wf_result cfg r"
      using wf_run(2)[OF wf_init, of cfg sid tks] by blast
    then show "\<exists>i. r = Inr i"
      by (cases r) (simp_all add: wf_result_def)
  qed
  show ?thesis using a b c by blast
qed

theorem visit_never_missing_witness:
  "state (snd (run_ticks Config (init_machine ''session'') scenario_B)) = BIRD_ABSENT \<and>
   current_visit (snd (run_ticks Config (init_machine ''session'') scenario_B)) \<noteq> None"
proof -
  let ?m = "snd (run_ticks Config (init_machine ''session'') scenario_B)"
  have st: "state ?m = BIRD_ABSENT"
    by (simp add: scenario_B_def tick_at_def sm_defs init_machine_def Config_def Let_def)
  with visit_never_missing[of Config "''session''" scenario_B] show ?thesis
    by blast
qed

text \<open>
  C4, amended: when the configured maximum is at least 1, the open visit never holds
  more captures than the maximum after any sequence of ticks, nor does any visit carried
  by an instruction; and for any maximum, a detected tick in \<open>BIRD_PRESENT\<close> on a
  visit that has reached it produces no instruction and changes nothing.
\<close>

theorem capture_count_bounded:
  "(1 \<le> MAX_CAPTURES_PER_VISIT cfg \<longrightarrow>
      (\<forall>v. current_visit (snd (run_ticks cfg (init_machine sid) tks)) = Some v \<longrightarrow>
         int (length (captures v)) \<le> MAX_CAPTURES_PER_VISIT cfg) \<and>
      (\<forall>i. Inr (Some i) \<in> set (fst (run_ticks cfg (init_machine sid) tks)) \<longrightarrow>
         int (length (captures (instr_visit i))) \<le> MAX_CAPTURES_PER_VISIT cfg)) \<and>
   (\<forall>m v ds e. state m = BIRD_PRESENT \<and> current_visit m = Some v \<and>
      MAX_CAPTURES_PER_VISIT cfg \<le> int (length (captures v)) \<longrightarrow>
      process_detection cfg m True ds e = Inr (None, m))"
proof -
  let ?m = "snd (run_ticks cfg (init_machine sid) tks)"
  have wf: "wf_machine cfg ?m"
    by (rule wf_run(1)[OF wf_init])
  have a: "1 \<le> MAX_CAPTURES_PER_VISIT cfg \<longrightarrow> (\<forall>v. current_visit ?m = Some v \<longrightarrow>
      int (length (captures v)) \<le> MAX_CAPTURES_PER_VISIT cfg)"
    using wf by (auto simp: wf_machine_def)
  have b: "1 \<le> MAX_CAPTURES_PER_VISIT cfg \<longrightarrow>
      (\<forall>i. Inr (Some i) \<in> set (fst (run_ticks cfg (init_machine sid) tks)) \<longrightarrow>
         int (length (captures (instr_visit i))) \<le> MAX_CAPTURES_PER_VISIT cfg)"
  proof (intro allI impI)
    fix i
    assume mx: "1 \<le> MAX_CAPTURES_PER_VISIT cfg"
      and "Inr (Some i) \<in> set (fst (run_ticks cfg (init_machine sid) tks))"
    then have "wf_result cfg (Inr (Some i))"
      using wf_run(2)[OF wf_init, of cfg sid tks] by blast
    then show "int (length (captures (instr_visit i))) \<le> MAX_CAPTURES_PER_VISIT cfg"
      using mx by (simp add: wf_result_def)
  qed
  have c: "\<forall>m v ds e. state m = BIRD_PRESENT \<and> current_visit m = Some v \<and>
      MAX_CAPTURES_PER_VISIT cfg \<le> int (length (captures v)) \<longrightarrow>
      process_detection cfg m True ds e = Inr (None, m)"
    by (auto simp: process_detection_def capture_photo_def)
  show ?thesis using a b c by blast
qed

theorem capture_count_bounded_witness:
  "1 \<le> MAX_CAPTURES_PER_VISIT Config \<and>
   get_state_info (snd (run_ticks Config (init_machine ''session'') scenario_full))
     = (BIRD_PRESENT, Some ''visit-1'', 5) \<and>
   tick_step Config (snd (run_ticks Config (init_machine ''session'') scenario_full))
       (tick_at True 15)
     = (Inr None, snd (run_ticks Config (init_machine ''session'') scenario_full))"
proof -
  let ?m = "snd (run_ticks Config (init_machine ''session'') scenario_full)"
  have mx: "1 \<le> MAX_CAPTURES_PER_VISIT Config"
    by (simp add: Config_def)
  have info: "get_state_info ?m = (BIRD_PRESENT, Some ''visit-1'', 5)"
    by (simp add: scenario_full_def tick_at_def sm_defs init_machine_def Config_def Let_def
          get_state_info_def)
  then obtain v where v: "current_visit ?m = Some v" and n: "length (captures v) = 5"
    and st: "state ?m = BIRD_PRESENT"
    by (cases "current_visit ?m") (auto simp: get_state_info_def)
  have bound: "int (length (captures v)) \<le> MAX_CAPTURES_PER_VISIT Config"
    using capture_count_bounded[of Config "''session''" scenario_full] mx v by blast
  have "MAX_CAPTURES_PER_VISIT Config \<le> int (length (captures v))"
    using n by (simp add: Config_def)
  with capture_count_bounded[of Config "''session''" scenario_full] st v
  have "process_detection Config ?m True [] (tick_env (tick_at True 15)) = Inr (None, ?m)"
    by blast
  then have "tick_step Config ?m (tick_at True 15) = (Inr None, ?m)"
    by (simp add: tick_step_def dispatch_def tick_at_def)
  with mx info show ?thesis by blast
qed

text \<open>
  With a maximum of 0 the first detected tick already stores one capture: starting a
  visit always captures.
\<close>

theorem capture_count_counterexample:
  "int (snd (snd (get_state_info (snd (run_ticks (Config\<lparr> MAX_CAPTURES_PER_VISIT := 0 \<rparr>)
       (init_machine ''session'') [tick_at True 0])))))
     > MAX_CAPTURES_PER_VISIT (Config\<lparr> MAX_CAPTURES_PER_VISIT := 0 \<rparr>)"
  by (simp add: tick_at_def sm_defs init_machine_def Config_def Let_def get_state_info_def)

section \<open>The detection loop on a failing detector\<close>

text \<open>
  C9, amended: on an iteration on which \<open>_detect_birds\<close> raises, the exception is
  caught by the handler of the loop, which records it; \<open>process_detection\<close> is not
  called, so the machine is exactly as it was before the iteration (the tick is skipped,
  not handled as a tick without detection), and the loop keeps running.
\<close>

theorem detector_error_skips_tick:
  assumes "detect_birds it = Inl err"
  shows "state_machine (run_iteration cfg d it) = state_machine d \<and>
         running (run_iteration cfg d it) = running d \<and>
         (\<not> now_ms it - last_detection_time d < of_int (DETECTION_INTERVAL_MS cfg) \<and>
          frame_ok it \<longrightarrow>
            loop_errors (run_iteration cfg d it) = loop_errors d @ [err])"
  using assms by (simp add: run_iteration_def Let_def)

theorem detector_error_skips_tick_witness:
  "detect_birds iteration_failing = Inl (Exception ''inference failed'') \<and>
   state_machine (run_iteration Config detector_present iteration_failing)
     = state_machine detector_present \<and>
   loop_errors (run_iteration Config detector_present iteration_failing)
     = [Exception ''inference failed'']"
proof -
  have f: "detect_birds iteration_failing = Inl (Exception ''inference failed'')"
    by (simp add: iteration_failing_def)
  have g: "\<not> now_ms iteration_failing - last_detection_time detector_present
               < of_int (DETECTION_INTERVAL_MS Config) \<and> frame_ok iteration_failing"
    by (simp add: iteration_failing_def detector_present_def Config_def)
  have l: "loop_errors detector_present = []"
    by (simp add: detector_present_def)
  from detector_error_skips_tick[OF f, of Config detector_present] g l f
  show ?thesis by simp
qed

text \<open>
  In \<open>BIRD_PRESENT\<close> the two differ: after the failing iteration the machine is still
  in \<open>BIRD_PRESENT\<close>, after a tick without detection at the same time it is in
  \<open>BIRD_ABSENT\<close>.
\<close>

theorem detector_error_counterexample:
  "state (state_machine (run_iteration Config detector_present iteration_failing))
     = BIRD_PRESENT \<and>
   state (state_machine (run_iteration Config detector_present
       (iteration_failing\<lparr> detect_birds := Inr [] \<rparr>))) = BIRD_ABSENT"
  by (simp add: run_iteration_def detector_present_def iteration_failing_def tick_at_def
        sm_defs init_machine_def Config_def Let_def)

section \<open>The best capture\<close>

lemma best_loop_keep:
  assumes "\<forall>c \<in> set cs. score fmul c = Inr (sc c)" and "\<forall>c \<in> set cs. sc c \<le> bs"
  shows "best_loop fmul cs (bc, bs) = Inr (bc, bs)"
  using assms by (induction cs) auto

lemma best_loop_first_max:
  assumes "\<forall>c \<in> set cs. score fmul c = Inr (sc c)" and "\<exists>c \<in> set cs. sc c > bs"
  shows "\<exists>i < length cs. best_loop fmul cs (bc, bs) = Inr (Some (cs ! i), sc (cs ! i)) \<and>
           sc (cs ! i) > bs \<and>
           (\<forall>j < length cs. sc (cs ! j) \<le> sc (cs ! i)) \<and>
           (\<forall>j < i. sc (cs ! j) < sc (cs ! i))"
  using assms
proof (induction cs arbitrary: bc bs)
  case Nil
  then show ?case by simp
next
  case (Cons c cs)
  have sc: "score fmul c = Inr (sc c)" and rest: "\<forall>c' \<in> set cs. score fmul c' = Inr (sc c')"
    using Cons.prems(1) by simp_all
  show ?case
  proof (cases "sc c > bs")
    case True
    show ?thesis
    proof (cases "\<exists>c' \<in> set cs. sc c' > sc c")
      case False
      then have le: "\<forall>c' \<in> set cs. sc c' \<le> sc c" by auto
      have "best_loop fmul (c # cs) (bc, bs) = Inr (Some c, sc c)"
        using True sc best_loop_keep[OF rest le] by simp
      moreover have "\<forall>j < length (c # cs). sc ((c # cs) ! j) \<le> sc c"
        using le by (auto simp: nth_Cons split: nat.splits)
      ultimately show ?thesis using True
        by (intro exI[of _ 0]) simp
    next
      case ex: True
      from Cons.IH[OF rest ex, of "Some c"] obtain i where i: "i < length cs"
        "best_loop fmul cs (Some c, sc c) = Inr (Some (cs ! i), sc (cs ! i))"
        "sc (cs ! i) > sc c"
        "\<forall>j < length cs. sc (cs ! j) \<le> sc (cs ! i)"
        "\<forall>j < i. sc (cs ! j) < sc (cs ! i)"
        by blast
      show ?thesis
        using True sc i by (intro exI[of _ "Suc i"]) (auto simp: nth_Cons split: nat.splits)
    qed
  next
    case False
    with Cons.prems(2) have ex: "\<exists>c' \<in> set cs. sc c' > bs" by auto
    from Cons.IH[OF rest ex, of bc] obtain i where i: "i < length cs"
        "best_loop fmul cs (bc, bs) = Inr (Some (cs ! i), sc (cs ! i))" "sc (cs ! i) > bs"
        "\<forall>j < length cs. sc (cs ! j) \<le> sc (cs ! i)"
        "\<forall>j < i. sc (cs ! j) < sc (cs ! i)"
      by blast
    show ?thesis
      using False sc i by (intro exI[of _ "Suc i"]) (auto simp: nth_Cons split: nat.splits)
  qed
qed

text \<open>
  C8: the score of a capture is the product the code computes, the total box area times
  the maximal confidence. For every non-empty list of captures whose scores are computed
  and among which some score is positive or no score exceeds that of the first capture,
  \<open>_select_best_capture\<close> returns a capture of maximal score, and the first such
  capture of the list. Every list of captures that the detector stores is of that kind,
  its boxes having \<open>x1 \<le> x2\<close> and \<open>y1 \<le> y2\<close> (\<open>detector_captures_covered\<close>);
  the lists left out have a first capture of negative score and no capture of positive
  score (\<open>best_capture_hypothesis_needed\<close>).
\<close>

theorem select_best_capture_first_max:
  assumes "cs \<noteq> []" and "\<forall>c \<in> set cs. score fmul c = Inr (sc c)"
    and "(\<exists>c \<in> set cs. 0 < sc c) \<or> (\<forall>c \<in> set cs. sc c \<le> sc (hd cs))"
  shows "\<exists>i < length cs. select_best_capture fmul cs = Inr (cs ! i) \<and>
           (\<forall>j < length cs. sc (cs ! j) \<le> sc (cs ! i)) \<and>
           (\<forall>j < i. sc (cs ! j) < sc (cs ! i))"
proof (cases "\<exists>c \<in> set cs. sc c > 0")
  case True
  from best_loop_first_max[OF assms(2) True, of None] obtain i where i: "i < length cs"
      "best_loop fmul cs (None, 0) = Inr (Some (cs ! i), sc (cs ! i))"
      "\<forall>j < length cs. sc (cs ! j) \<le> sc (cs ! i)"
      "\<forall>j < i. sc (cs ! j) < sc (cs ! i)"
    by blast
  then show ?thesis
    by (intro exI[of _ i]) (simp add: select_best_capture_def)
next
  case False
  then have le: "\<forall>c \<in> set cs. sc c \<le> 0" by auto
  from False assms(3) have first: "\<forall>c \<in> set cs. sc c \<le> sc (hd cs)" by blast
  have "best_loop fmul cs (None, 0) = Inr (None, 0)"
    by (rule best_loop_keep[OF assms(2) le])
  then have "select_best_capture fmul cs = Inr (cs ! 0)"
    using assms(1) by (cases cs) (simp_all add: select_best_capture_def)
  moreover have "\<forall>j < length cs. sc (cs ! j) \<le> sc (cs ! 0)"
    using first assms(1) by (simp add: hd_conv_nth)
  ultimately show ?thesis using assms(1)
    by (intro exI[of _ 0]) simp
qed

lemma best_capture_hypothesis_needed:
  assumes "cs \<noteq> []" and "\<forall>c \<in> set cs. score fmul c = Inr (sc c)"
    and "select_best_capture fmul cs = Inr (cs ! i)" and "i < length cs"
    and "\<forall>j < length cs. sc (cs ! j) \<le> sc (cs ! i)"
    and "\<forall>j < i. sc (cs ! j) < sc (cs ! i)"
  shows "(\<exists>c \<in> set cs. 0 < sc c) \<or> (\<forall>c \<in> set cs. sc c \<le> sc (hd cs))"
proof (cases "\<exists>c \<in> set cs. sc c > 0")
  case True
  then show ?thesis by blast
next
  case False
  then have le: "\<forall>c \<in> set cs. sc c \<le> 0" by auto
  have "best_loop fmul cs (None, 0) = Inr (None, 0)"
    by (rule best_loop_keep[OF assms(2) le])
  then have "select_best_capture fmul cs = Inr (hd cs)"
    using assms(1) by (cases cs) (simp_all add: select_best_capture_def)
  with assms(3) have "cs ! i = hd cs" by simp
  with assms(5) have "\<forall>c \<in> set cs. sc c \<le> sc (hd cs)"
    by (auto simp: in_set_conv_nth)
  then show ?thesis by blast
qed

lemma scan_detections_nonneg:
  assumes "\<forall>d \<in> set ds. \<forall>x1 y1 x2 y2. bbox d = Some [x1, y1, x2, y2] \<longrightarrow> x1 \<le> x2 \<and> y1 \<le> y2"
    and "0 \<le> ta" and "0 \<le> mc"
  shows "0 \<le> fst (scan_detections ds (ta, mc)) \<and> 0 \<le> snd (scan_detections ds (ta, mc))"
  using assms
proof (induction ds arbitrary: ta mc)
  case Nil
  then show ?case by simp
next
  case (Cons d ds)
  show ?case
  proof (cases "\<exists>x1 y1 x2 y2. bbox d = Some [x1, y1, x2, y2]")
    case True
    then obtain x1 y1 x2 y2 where b: "bbox d = Some [x1, y1, x2, y2]" by blast
    with Cons.prems(1) have "x1 \<le> x2" "y1 \<le> y2" by auto
    then have "0 \<le> ta + (x2 - x1) * (y2 - y1)" using Cons.prems(2) by simp
    moreover have "0 \<le> max mc (case confidence d of None \<Rightarrow> 0 | Some c \<Rightarrow> c)"
      using Cons.prems(3) by simp
    ultimately show ?thesis using Cons.IH[of "ta + (x2 - x1) * (y2 - y1)"
        "max mc (case confidence d of None \<Rightarrow> 0 | Some c \<Rightarrow> c)"] Cons.prems(1) b
      by simp
  next
    case False
    then have "scan_detections (d # ds) (ta, mc) = scan_detections ds (ta, mc)"
      by (auto split: option.splits list.splits)
    then show ?thesis using Cons.IH[of ta mc] Cons.prems by simp
  qed
qed

lemma score_nonneg:
  assumes "\<forall>ds d. detections c = Some ds \<and> d \<in> set ds \<longrightarrow>
     (\<forall>x1 y1 x2 y2. bbox d = Some [x1, y1, x2, y2] \<longrightarrow> x1 \<le> x2 \<and> y1 \<le> y2)"
    and "\<forall>a m p. fmul a m = Inr p \<and> 0 \<le> a \<and> 0 \<le> m \<longrightarrow> 0 \<le> p"
    and "score fmul c = Inr p"
  shows "0 \<le> p"
proof -
  let ?ds = "case detections c of None \<Rightarrow> [] | Some ds \<Rightarrow> ds"
  have "\<forall>d \<in> set ?ds. \<forall>x1 y1 x2 y2. bbox d = Some [x1, y1, x2, y2] \<longrightarrow> x1 \<le> x2 \<and> y1 \<le> y2"
    using assms(1) by (cases "detections c") auto
  from scan_detections_nonneg[OF this, of 0 0]
  have nn: "0 \<le> fst (scan_detections ?ds (0, 0))" "0 \<le> snd (scan_detections ?ds (0, 0))"
    by simp_all
  show ?thesis
    using assms(2,3) nn by (auto simp: score_def split_def split: if_splits)
qed

lemma detector_captures_covered:
  assumes "cs \<noteq> []" and "\<forall>c \<in> set cs. score fmul c = Inr (sc c)"
    and "\<forall>c \<in> set cs. \<forall>ds d. detections c = Some ds \<and> d \<in> set ds \<longrightarrow>
       (\<forall>x1 y1 x2 y2. bbox d = Some [x1, y1, x2, y2] \<longrightarrow> x1 \<le> x2 \<and> y1 \<le> y2)"
    and "\<forall>a m p. fmul a m = Inr p \<and> 0 \<le> a \<and> 0 \<le> m \<longrightarrow> 0 \<le> p"
  shows "(\<exists>c \<in> set cs. 0 < sc c) \<or> (\<forall>c \<in> set cs. sc c \<le> sc (hd cs))"
proof (cases "\<exists>c \<in> set cs. 0 < sc c")
  case True
  then show ?thesis by blast
next
  case False
  have nn: "\<forall>c \<in> set cs. 0 \<le> sc c"
  proof
    fix c assume c: "c \<in> set cs"
    show "0 \<le> sc c"
      by (rule score_nonneg[of c fmul]) (use c assms in auto)
  qed
  with False have z: "\<forall>c \<in> set cs. sc c = 0" by fastforce
  moreover have "hd cs \<in> set cs" using assms(1) by simp
  ultimately show ?thesis by simp
qed

theorem select_best_capture_first_max_witness:
  "select_best_capture exact_product
     [capture_plain, capture_large, capture_large\<lparr> capture_id := ''c4'' \<rparr>] = Inr capture_large \<and>
   select_best_capture exact_product [capture_inverted, capture_large] = Inr capture_large \<and>
   select_best_capture exact_product [capture_plain, capture_plain\<lparr> capture_id := ''c5'' \<rparr>]
     = Inr capture_plain"
proof -
  let ?c4 = "capture_large\<lparr> capture_id := ''c4'' \<rparr>"
  let ?c5 = "capture_plain\<lparr> capture_id := ''c5'' \<rparr>"
  define sc where "sc c = (if c = capture_inverted then -1 else if c = capture_plain \<or> c = ?c5
      then 0 else (300::rat))" for c
  have s: "score exact_product capture_plain = Inr 0" "score exact_product ?c5 = Inr 0"
    "score exact_product capture_large = Inr 300" "score exact_product ?c4 = Inr 300"
    "score exact_product capture_inverted = Inr (-1)"
    by (simp_all add: score_def exact_product_def capture_plain_def capture_large_def
          capture_inverted_def)
  have ne: "capture_large \<noteq> capture_inverted" "capture_large \<noteq> capture_plain"
    "capture_large \<noteq> ?c5" "?c4 \<noteq> capture_inverted" "?c4 \<noteq> capture_plain" "?c4 \<noteq> ?c5"
    "capture_plain \<noteq> capture_inverted" "?c5 \<noteq> capture_inverted" "?c4 \<noteq> capture_large"
    "?c5 \<noteq> capture_plain"
    by (simp_all add: capture_plain_def capture_large_def capture_inverted_def)
  have v: "sc capture_plain = 0" "sc ?c5 = 0" "sc capture_large = 300" "sc ?c4 = 300"
    "sc capture_inverted = -1"
    using ne by (simp_all add: sc_def)
  have first: "select_best_capture exact_product [capture_plain, capture_large, ?c4]
      = Inr capture_large"
  proof -
    let ?cs = "[capture_plain, capture_large, ?c4]"
    have h2: "\<forall>c \<in> set ?cs. score exact_product c = Inr (sc c)" using s v by simp
    have h3: "(\<exists>c \<in> set ?cs. 0 < sc c) \<or> (\<forall>c \<in> set ?cs. sc c \<le> sc (hd ?cs))"
      using v by simp
    from select_best_capture_first_max[OF _ h2 h3] obtain i where i: "i < length ?cs"
      "select_best_capture exact_product ?cs = Inr (?cs ! i)"
      "\<forall>j < length ?cs. sc (?cs ! j) \<le> sc (?cs ! i)"
      "\<forall>j < i. sc (?cs ! j) < sc (?cs ! i)"
      by blast
    from i(1) have "i = 0 \<or> i = 1 \<or> i = 2" by (simp) arith
    moreover have "i \<noteq> 0"
    proof
      assume "i = 0"
      with i(3)[rule_format, of 1] v show False by simp
    qed
    moreover have "i \<noteq> 2"
    proof
      assume "i = 2"
      with i(4)[rule_format, of 1] v show False by simp
    qed
    ultimately have "i = 1" by blast
    with i(2) show ?thesis by simp
  qed
  have second: "select_best_capture exact_product [capture_inverted, capture_large]
      = Inr capture_large"
  proof -
    let ?cs = "[capture_inverted, capture_large]"
    have h2: "\<forall>c \<in> set ?cs. score exact_product c = Inr (sc c)" using s v by simp
    have h3: "(\<exists>c \<in> set ?cs. 0 < sc c) \<or> (\<forall>c \<in> set ?cs. sc c \<le> sc (hd ?cs))"
      using v by simp
    from select_best_capture_first_max[OF _ h2 h3] obtain i where i: "i < length ?cs"
      "select_best_capture exact_product ?cs = Inr (?cs ! i)"
      "\<forall>j < length ?cs. sc (?cs ! j) \<le> sc (?cs ! i)"
      by blast
    from i(1) have "i = 0 \<or> i = 1" by (simp) arith
    moreover have "i \<noteq> 0"
    proof
      assume "i = 0"
      with i(3)[rule_format, of 1] v show False by simp
    qed
    ultimately have "i = 1" by blast
    with i(2) show ?thesis by simp
  qed
  have third: "select_best_capture exact_product [capture_plain, ?c5] = Inr capture_plain"
  proof -
    let ?cs = "[capture_plain, ?c5]"
    have h2: "\<forall>c \<in> set ?cs. score exact_product c = Inr (sc c)" using s v by simp
    have h3: "(\<exists>c \<in> set ?cs. 0 < sc c) \<or> (\<forall>c \<in> set ?cs. sc c \<le> sc (hd ?cs))"
      using v by simp
    from select_best_capture_first_max[OF _ h2 h3] obtain i where i: "i < length ?cs"
      "select_best_capture exact_product ?cs = Inr (?cs ! i)"
      "\<forall>j < i. sc (?cs ! j) < sc (?cs ! i)"
      by blast
    from i(1) have "i = 0 \<or> i = 1" by (simp) arith
    moreover have "i \<noteq> 1"
    proof
      assume "i = 1"
      with i(3)[rule_format, of 0] v show False by simp
    qed
    ultimately have "i = 0" by blast
    with i(2) show ?thesis by simp
  qed
  from first second third show ?thesis by blast
qed

section \<open>The analysis worker\<close>

lemmas analyzer_defs = analyze_visit_def new_SpeciesAnalyzer_def mark_visit_completed_def
  mark_visit_failed_def update_species_stats_def identify_species_def




lemma identify_attempts_all_fail:
  assumes "take 4 url = ''http''" and "\<forall>k < N. cl k = Inl (msgs k)"
    and "OPENAI_MAX_RETRIES cfg = int N"
    and "N = 1 \<or> OPENAI_RETRY_DELAY_SEC cfg = Some dl \<and> 0 \<le> dl"
    and "a < N"
  shows "identify_attempts cfg cl url [a..<N] a sl
           = \<lparr> outcome = Inr (''unknown'', ''low'', ''Analysis failed: '' @ msgs (N - 1), 1),
               calls = N, sleeps = sl @ map (\<lambda>i. dl * 2 ^ i) [a..<N - 1] \<rparr>"
  using assms(5)
proof (induction "N - a" arbitrary: a sl)
  case 0
  then show ?case by simp
next
  case (Suc d)
  have up: "[a..<N] = a # [Suc a..<N]"
    using Suc.prems by (simp add: upt_conv_Cons)
  have fail: "cl a = Inl (msgs a)"
    using assms(2) Suc.prems by simp
  show ?case
  proof (cases "Suc a < N")
    case True
    then have dl: "OPENAI_RETRY_DELAY_SEC cfg = Some dl" and pos: "0 \<le> dl"
      using assms(4) by auto
    have nonneg: "\<not> dl * 2 ^ a < 0"
      using pos by (simp add: not_less)
    have more: "int a < OPENAI_MAX_RETRIES cfg - 1"
      using True assms(3) by simp
    have d: "d = N - Suc a" using Suc.hyps(2) by simp
    have up2: "[a..<N - Suc 0] = a # [Suc a..<N - Suc 0]"
      using True by (simp add: upt_conv_Cons)
    show ?thesis
      unfolding up
      using Suc.hyps(1)[OF d True, of "sl @ [dl * 2 ^ a]"] fail more dl nonneg assms(1)
      by (simp add: up2 Let_def)
  next
    case False
    then have last: "a = N - 1" using Suc.prems by simp
    have nomore: "\<not> int a < OPENAI_MAX_RETRIES cfg - 1"
      using last assms(3) Suc.prems by simp
    have e: "[Suc a..<N] = []" "[a..<N - Suc 0] = []"
      using False last by simp_all
    show ?thesis
      unfolding up
      using fail nomore assms(1) last Suc.prems by (simp add: e)
  qed
qed

text \<open>
  Where the retry loop can run to its end (a single attempt, or a configuration object
  that does carry a non-negative \<open>OPENAI_RETRY_DELAY_SEC\<close>), the classifier is called
  \<open>OPENAI_MAX_RETRIES\<close> times with the delays \<open>delay * 2 ^ i\<close> in between, and the
  last attempt returns the placeholder tuple: the visit is marked \<open>completed\<close>, with
  the last error in its summary.
\<close>

lemma exhausted_retries_with_delay:
  assumes "OPENAI_API_KEY cfg \<noteq> []"
    and "OPENAI_MAX_RETRIES cfg = int N" and "0 < N"
    and "N = 1 \<or> OPENAI_RETRY_DELAY_SEC cfg = Some dl \<and> 0 \<le> dl"
    and "\<forall>k < N. cl k = Inl (msgs k)"
    and "captures_select_fails fl = None" and "visits_update_fails fl = None"
    and "visits db vid = Some row"
    and "select_best_capture fmul (filter (\<lambda>c. cap_visit_id c = vid) (captures_table db))
           = Inr best"
    and "image_url best = Some url" and "take 4 url = ''http''"
  shows "api_calls (analyze_visit fmul (new_SpeciesAnalyzer cfg cl) db fl t vid) = N \<and>
         backoff (analyze_visit fmul (new_SpeciesAnalyzer cfg cl) db fl t vid)
           = map (\<lambda>i. dl * 2 ^ i) [0..<N - 1] \<and>
         visits (store (analyze_visit fmul (new_SpeciesAnalyzer cfg cl) db fl t vid)) vid
           = Some (row\<lparr> row_status := ''completed'', row_species := Some ''unknown'',
                        row_species_confidence := Some ''low'',
                        row_summary := Some (''Analysis failed: '' @ msgs (N - 1)),
                        row_bird_count := 1, row_updated_at := Some t \<rparr>)"
proof -
  let ?data = "filter (\<lambda>c. cap_visit_id c = vid) (captures_table db)"
  have ne: "?data \<noteq> []"
    using assms(9) by (auto simp: select_best_capture_def)
  have nat: "nat (OPENAI_MAX_RETRIES cfg) = N"
    using assms(2) by simp
  have id: "identify_species cfg cl best
      = \<lparr> outcome = Inr (''unknown'', ''low'', ''Analysis failed: '' @ msgs (N - 1), 1),
          calls = N, sleeps = [] @ map (\<lambda>i. dl * 2 ^ i) [0..<N - 1] \<rparr>"
    unfolding identify_species_def nat
    using identify_attempts_all_fail[OF assms(11) assms(5) assms(2) assms(4) assms(3), of "[]"]
      assms(10)
    by simp
  show ?thesis
    using assms(1,6,7,8,9) ne id
    by (simp add: analyze_visit_def new_SpeciesAnalyzer_def mark_visit_completed_def
          update_species_stats_def Let_def)
qed

lemma visits_analyzing_best:
  "filter (\<lambda>c. cap_visit_id c = ''visit-1'') (captures_table visits_analyzing)
      = [capture_plain, capture_large]"
  "select_best_capture exact_product [capture_plain, capture_large] = Inr capture_large"
  "image_url capture_large = Some ''https://store/c3.jpg''"
proof -
  have sc: "score exact_product capture_plain = Inr 0"
    "score exact_product capture_large = Inr 300"
    by (simp_all add: score_def exact_product_def capture_plain_def capture_large_def)
  show "filter (\<lambda>c. cap_visit_id c = ''visit-1'') (captures_table visits_analyzing)
      = [capture_plain, capture_large]"
    by (simp add: visits_analyzing_def capture_plain_def capture_large_def)
  show "select_best_capture exact_product [capture_plain, capture_large] = Inr capture_large"
    by (simp add: select_best_capture_def sc)
  show "image_url capture_large = Some ''https://store/c3.jpg''"
    by (simp add: capture_large_def)
qed

text \<open>
  C1, the code at scenario C of the specification: \<open>config.py\<close> as it is (three
  attempts, no attribute \<open>OPENAI_RETRY_DELAY_SEC\<close>), a classifier that fails on
  every call. The first failure reads the missing attribute inside the \<open>except\<close>
  handler: the \<open>AttributeError\<close> leaves \<open>_identify_species\<close> after one call, not
  three, and \<open>analyze_visit\<close> marks the visit \<open>failed\<close> with that
  \<open>AttributeError\<close> in the summary, not with the last error of the classifier.
\<close>

theorem scenario_C_stops_after_first_call:
  "OPENAI_MAX_RETRIES (Config\<lparr> OPENAI_API_KEY := ''sk-test'' \<rparr>) = 3 \<and>
   api_calls (analyze_visit exact_product
       (new_SpeciesAnalyzer (Config\<lparr> OPENAI_API_KEY := ''sk-test'' \<rparr>) classifier_down)
       visits_analyzing no_faults 20 ''visit-1'') = 1 \<and>
   map_option row_status (visits (store (analyze_visit exact_product
       (new_SpeciesAnalyzer (Config\<lparr> OPENAI_API_KEY := ''sk-test'' \<rparr>) classifier_down)
       visits_analyzing no_faults 20 ''visit-1'')) ''visit-1'') = Some ''failed'' \<and>
   map_option row_summary (visits (store (analyze_visit exact_product
       (new_SpeciesAnalyzer (Config\<lparr> OPENAI_API_KEY := ''sk-test'' \<rparr>) classifier_down)
       visits_analyzing no_faults 20 ''visit-1'')) ''visit-1'')
     = Some (Some (''Analysis failed: type object '' @ quoted ''Config''
         @ '' has no attribute '' @ quoted ''OPENAI_RETRY_DELAY_SEC''))"
proof -
  have tbl: "visits visits_analyzing ''visit-1'' \<noteq> None"
    by (simp_all add: visits_analyzing_def)
  have three: "[0..<3] = [0, 1, 2]" by (simp add: upt_rec)
  show ?thesis
    using tbl
    by (auto simp: analyzer_defs visits_analyzing_best Let_def Config_def no_faults_def
          classifier_down_def three)
qed

lemma single_attempt_marks_completed:
  "api_calls (analyze_visit exact_product
       (new_SpeciesAnalyzer (Config\<lparr> OPENAI_API_KEY := ''sk-test'',
          OPENAI_MAX_RETRIES := 1 \<rparr>) classifier_down)
       visits_analyzing no_faults 20 ''visit-1'') = 1 \<and>
   map_option row_status (visits (store (analyze_visit exact_product
       (new_SpeciesAnalyzer (Config\<lparr> OPENAI_API_KEY := ''sk-test'',
          OPENAI_MAX_RETRIES := 1 \<rparr>) classifier_down)
       visits_analyzing no_faults 20 ''visit-1'')) ''visit-1'') = Some ''completed'' \<and>
   map_option row_summary (visits (store (analyze_visit exact_product
       (new_SpeciesAnalyzer (Config\<lparr> OPENAI_API_KEY := ''sk-test'',
          OPENAI_MAX_RETRIES := 1 \<rparr>) classifier_down)
       visits_analyzing no_faults 20 ''visit-1'')) ''visit-1'')
     = Some (Some ''Analysis failed: timeout on call 1'')"
proof -
  have tbl: "visits visits_analyzing ''visit-1'' \<noteq> None"
    "species_stats visits_analyzing = Map.empty"
    by (simp_all add: visits_analyzing_def)
  show ?thesis
    using tbl
    by (auto simp: analyzer_defs visits_analyzing_best Let_def Config_def no_faults_def
          classifier_down_def)
qed

lemma three_attempts_with_delay:
  "api_calls (analyze_visit exact_product
       (new_SpeciesAnalyzer (Config\<lparr> OPENAI_API_KEY := ''sk-test'',
          OPENAI_RETRY_DELAY_SEC := Some 2 \<rparr>) classifier_down)
       visits_analyzing no_faults 20 ''visit-1'') = 3 \<and>
   backoff (analyze_visit exact_product
       (new_SpeciesAnalyzer (Config\<lparr> OPENAI_API_KEY := ''sk-test'',
          OPENAI_RETRY_DELAY_SEC := Some 2 \<rparr>) classifier_down)
       visits_analyzing no_faults 20 ''visit-1'') = [2, 4] \<and>
   map_option row_status (visits (store (analyze_visit exact_product
       (new_SpeciesAnalyzer (Config\<lparr> OPENAI_API_KEY := ''sk-test'',
          OPENAI_RETRY_DELAY_SEC := Some 2 \<rparr>) classifier_down)
       visits_analyzing no_faults 20 ''visit-1'')) ''visit-1'') = Some ''completed'' \<and>
   map_option row_summary (visits (store (analyze_visit exact_product
       (new_SpeciesAnalyzer (Config\<lparr> OPENAI_API_KEY := ''sk-test'',
          OPENAI_RETRY_DELAY_SEC := Some 2 \<rparr>) classifier_down)
       visits_analyzing no_faults 20 ''visit-1'')) ''visit-1'')
     = Some (Some ''Analysis failed: timeout on call 3'')"
proof -
  let ?cfg = "Config\<lparr> OPENAI_API_KEY := ''sk-test'', OPENAI_RETRY_DELAY_SEC := Some 2 \<rparr>"
  let ?msgs = "\<lambda>n::nat. if n = 0 then ''timeout on call 1''
          else if n = 1 then ''timeout on call 2'' else ''timeout on call 3''"
  have a1: "OPENAI_API_KEY ?cfg \<noteq> []" by simp
  have a2: "OPENAI_MAX_RETRIES ?cfg = int 3" by (simp add: Config_def)
  have a3: "(0::nat) < 3" by simp
  have a4: "(3::nat) = 1 \<or> OPENAI_RETRY_DELAY_SEC ?cfg = Some 2 \<and> (0::int) \<le> 2" by simp
  have a5: "\<forall>k < 3. classifier_down k = Inl (?msgs k)"
    by (simp add: classifier_down_def)
  have a6: "captures_select_fails no_faults = None" by (simp add: no_faults_def)
  have a7: "visits_update_fails no_faults = None" by (simp add: no_faults_def)
  obtain row where a8: "visits visits_analyzing ''visit-1'' = Some row"
    by (simp add: visits_analyzing_def)
  have a9: "select_best_capture exact_product
      (filter (\<lambda>c. cap_visit_id c = ''visit-1'') (captures_table visits_analyzing))
      = Inr capture_large"
    by (simp only: visits_analyzing_best)
  have a11: "take 4 ''https://store/c3.jpg'' = ''http''" by simp
  have r: "[0..<2] = [0, Suc 0]" by (simp add: upt_rec)
  from exhausted_retries_with_delay[OF a1 a2 a3 a4 a5 a6 a7 a8 a9 visits_analyzing_best(3) a11,
      of 20]
  show ?thesis by (simp add: r)
qed

text \<open>
  A negative delay makes \<open>time.sleep\<close> raise after the first call.
\<close>

lemma negative_delay_stops_after_first_call:
  "api_calls (analyze_visit exact_product
       (new_SpeciesAnalyzer (Config\<lparr> OPENAI_API_KEY := ''sk-test'',
          OPENAI_RETRY_DELAY_SEC := Some (-1) \<rparr>) classifier_down)
       visits_analyzing no_faults 20 ''visit-1'') = 1 \<and>
   map_option row_status (visits (store (analyze_visit exact_product
       (new_SpeciesAnalyzer (Config\<lparr> OPENAI_API_KEY := ''sk-test'',
          OPENAI_RETRY_DELAY_SEC := Some (-1) \<rparr>) classifier_down)
       visits_analyzing no_faults 20 ''visit-1'')) ''visit-1'') = Some ''failed''"
proof -
  have tbl: "visits visits_analyzing ''visit-1'' \<noteq> None"
    by (simp_all add: visits_analyzing_def)
  have three: "[0..<3] = [0, 1, 2]" by (simp add: upt_rec)
  show ?thesis
    using tbl
    by (auto simp: analyzer_defs visits_analyzing_best Let_def Config_def no_faults_def
          classifier_down_def three)
qed

end
